theory Spec2Isabelle
  imports Complex_Main "HOL-Library.Multiset"
begin

section \<open>Errors raised by the analysis script\<close>

text \<open>
  The script \<^verbatim>\<open>analyze_tb_incidence.py\<close> defines no exception class of its own.
  What can abort its LSTM section are the exceptions of the numeric libraries:
  \<^verbatim>\<open>ValueError\<close> (an array of the wrong size handed to \<^verbatim>\<open>reshape\<close>, an empty
  array handed to the scaler) and \<^verbatim>\<open>IndexError\<close> (an index outside an array).
  Floating-point numbers are modelled by the reals, so every statement below is one of exact
  arithmetic.
\<close>

datatype error = ValueError | IndexError

section \<open>The recursive forecasting loop\<close>

text \<open>
  \<^verbatim>\<open>
  look_back = 4
  ...
  last_sequence = scaled_data[-look_back:].flatten()
  future_predictions = []

  for _ in range(5):  # 5-year forecast
      next_pred = lstm_model.predict(last_sequence.reshape(1, look_back, 1))[0][0]
      future_predictions.append(next_pred)
      last_sequence = np.roll(last_sequence, -1)
      last_sequence[-1] = next_pred
  \<close>
  The trained network is a parameter \<open>predict\<close>, a function from a window to one number.
  The window width and the number of iterations are the literals 4 and 5 in the script;
  the loop is modelled for any width \<open>W\<close> and any number of iterations \<open>K\<close>, and the
  script's values are the constants \<open>look_back\<close> and \<open>future_steps\<close>.
\<close>

definition look_back :: nat where
  "look_back = 4"

definition future_steps :: nat where
  "future_steps = 5"

text \<open>\<^verbatim>\<open>a.reshape(1, W, 1)\<close>: numpy raises ValueError unless \<open>a\<close> holds exactly \<open>W\<close> numbers.\<close>

definition reshape_1_W_1 :: "nat \<Rightarrow> real list \<Rightarrow> error + real list" where
  "reshape_1_W_1 W a = (if length a = W then Inr a else Inl ValueError)"

text \<open>\<^verbatim>\<open>np.roll(a, -1)\<close>: every entry moves one place to the left, the first one wraps
  around to the end; an empty array stays empty.\<close>

definition np_roll_left :: "real list \<Rightarrow> real list" where
  "np_roll_left a = (case a of [] \<Rightarrow> [] | x # rest \<Rightarrow> rest @ [x])"

text \<open>\<^verbatim>\<open>a[-1] = v\<close>: IndexError on an empty array.\<close>

definition set_last :: "real list \<Rightarrow> real \<Rightarrow> error + real list" where
  "set_last a v = (if a = [] then Inl IndexError else Inr (a[length a - 1 := v]))"

text \<open>The loop state: \<open>(last_sequence, future_predictions)\<close>.\<close>

type_synonym forecast_state = "real list \<times> real list"

definition forecast_step ::
  "(real list \<Rightarrow> real) \<Rightarrow> nat \<Rightarrow> forecast_state \<Rightarrow> error + forecast_state" where
  "forecast_step predict W st =
     (case st of (last_sequence, future_predictions) \<Rightarrow>
        (case reshape_1_W_1 W last_sequence of
           Inl e \<Rightarrow> Inl e
         | Inr inp \<Rightarrow>
             (let next_pred = predict inp;
                  future_predictions' = future_predictions @ [next_pred];
                  rolled = np_roll_left last_sequence
              in case set_last rolled next_pred of
                   Inl e \<Rightarrow> Inl e
                 | Inr last_sequence' \<Rightarrow> Inr (last_sequence', future_predictions'))))"

fun forecast_loop ::
  "(real list \<Rightarrow> real) \<Rightarrow> nat \<Rightarrow> nat \<Rightarrow> forecast_state \<Rightarrow> error + forecast_state" where
  "forecast_loop predict W 0 st = Inr st"
| "forecast_loop predict W (Suc k) st =
     (case forecast_step predict W st of
        Inl e \<Rightarrow> Inl e
      | Inr st' \<Rightarrow> forecast_loop predict W k st')"

definition forecast ::
  "(real list \<Rightarrow> real) \<Rightarrow> nat \<Rightarrow> real list \<Rightarrow> nat \<Rightarrow> error + forecast_state" where
  "forecast predict W initial_context K = forecast_loop predict W K (initial_context, [])"

subsection \<open>The procedure as the specification words it\<close>

text \<open>
  The specification's algorithm: the context starts as the initial context; each step
  predicts from the current context, appends the prediction to the output and replaces the
  context by itself without its oldest entry and with the prediction appended.
\<close>

fun spec_context :: "(real list \<Rightarrow> real) \<Rightarrow> real list \<Rightarrow> nat \<Rightarrow> real list" where
  "spec_context predict init 0 = init"
| "spec_context predict init (Suc k) =
     tl (spec_context predict init k) @ [predict (spec_context predict init k)]"

definition spec_output :: "(real list \<Rightarrow> real) \<Rightarrow> real list \<Rightarrow> nat \<Rightarrow> real list" where
  "spec_output predict init K = map (\<lambda>k. predict (spec_context predict init k)) [0..<K]"

section \<open>Min-max normalisation\<close>

text \<open>
  \<^verbatim>\<open>
  scaler = MinMaxScaler()
  scaled_data = scaler.fit_transform(df['y'].values.reshape(-1, 1))
  ...
  test_predictions_inv = scaler.inverse_transform(test_predictions)
  \<close>
  \<^verbatim>\<open>MinMaxScaler\<close> is scikit-learn's class, used with its defaults (feature range
  \<open>(0, 1)\<close>, no clipping) on a single column. On that column the library computes
  \<^verbatim>\<open>
  data_min_   = min(X);  data_max_ = max(X);  data_range_ = data_max_ - data_min_
  scale_      = (1 - 0) / _handle_zeros_in_scale(data_range_)
  min_        = 0 - data_min_ * scale_
  transform(X)         = X * scale_ + min_
  inverse_transform(X) = (X - min_) / scale_
  \<close>
  where \<^verbatim>\<open>_handle_zeros_in_scale\<close> replaces a range below ten machine epsilons by 1,
  so that a constant column is not divided by zero. Each of \<^verbatim>\<open>fit\<close>,
  \<^verbatim>\<open>transform\<close> and \<^verbatim>\<open>inverse_transform\<close> validates its argument first and raises
  ValueError on an array without rows. The script adds no check of its own.
\<close>

record min_max_scaler =
  sc_data_min :: real
  sc_data_max :: real
  sc_data_range :: real
  sc_scale :: real
  sc_min :: real

definition float_eps :: real where
  "float_eps = 1 / 2 ^ 52"

definition handle_zeros_in_scale :: "real \<Rightarrow> real" where
  "handle_zeros_in_scale r = (if r < 10 * float_eps then 1 else r)"

definition fit :: "real list \<Rightarrow> error + min_max_scaler" where
  "fit X =
     (case X of
        [] \<Rightarrow> Inl ValueError
      | x # rest \<Rightarrow>
          (let dmin = fold min rest x;
               dmax = fold max rest x;
               drange = dmax - dmin;
               scale = (1 - 0) / handle_zeros_in_scale drange
           in Inr \<lparr>sc_data_min = dmin, sc_data_max = dmax, sc_data_range = drange,
                   sc_scale = scale, sc_min = 0 - dmin * scale\<rparr>))"

definition transform :: "min_max_scaler \<Rightarrow> real list \<Rightarrow> error + real list" where
  "transform sc X =
     (if X = [] then Inl ValueError else Inr (map (\<lambda>x. x * sc_scale sc + sc_min sc) X))"

definition inverse_transform :: "min_max_scaler \<Rightarrow> real list \<Rightarrow> error + real list" where
  "inverse_transform sc X =
     (if X = [] then Inl ValueError else Inr (map (\<lambda>x. (x - sc_min sc) / sc_scale sc) X))"

definition fit_transform :: "real list \<Rightarrow> error + (min_max_scaler \<times> real list)" where
  "fit_transform X =
     (case fit X of
        Inl e \<Rightarrow> Inl e
      | Inr sc \<Rightarrow> (case transform sc X of Inl e \<Rightarrow> Inl e | Inr scaled \<Rightarrow> Inr (sc, scaled)))"

section \<open>Windowing\<close>

text \<open>
  \<^verbatim>\<open>
  look_back = 4
  X, y = [], []

  for i in range(len(scaled_data) - look_back):
      X.append(scaled_data[i:i+look_back, 0])
      y.append(scaled_data[i+look_back, 0])
  \<close>
  \<^verbatim>\<open>range(n)\<close> is empty for \<open>n \<le> 0\<close>; a slice never raises and is cut at the end of
  the array; an index beyond the end raises IndexError.
\<close>

definition py_range :: "int \<Rightarrow> nat list" where
  "py_range n = [0..<nat n]"

definition py_slice :: "real list \<Rightarrow> nat \<Rightarrow> nat \<Rightarrow> real list" where
  "py_slice a i j = take (j - i) (drop i a)"

definition py_index :: "real list \<Rightarrow> nat \<Rightarrow> error + real" where
  "py_index a i = (if i < length a then Inr (a ! i) else Inl IndexError)"

fun windows_loop ::
  "real list \<Rightarrow> nat \<Rightarrow> nat list \<Rightarrow> real list list \<times> real list
     \<Rightarrow> error + (real list list \<times> real list)" where
  "windows_loop scaled_data W [] (X, y) = Inr (X, y)"
| "windows_loop scaled_data W (i # rest) (X, y) =
     (case py_index scaled_data (i + W) of
        Inl e \<Rightarrow> Inl e
      | Inr label \<Rightarrow>
          windows_loop scaled_data W rest (X @ [py_slice scaled_data i (i + W)], y @ [label]))"

definition make_windows ::
  "real list \<Rightarrow> nat \<Rightarrow> error + (real list list \<times> real list)" where
  "make_windows scaled_data W =
     windows_loop scaled_data W (py_range (int (length scaled_data) - int W)) ([], [])"

section \<open>The LSTM section of the script as one function\<close>

text \<open>
  \<^verbatim>\<open>
  train_size = int(len(X) * 0.8)
  X_train, X_test = X[:train_size], X[train_size:]
  y_train, y_test = y[:train_size], y[train_size:]
  ...
  lstm_model.fit(X_train, y_train, epochs=100, batch_size=8, verbose=0, validation_split=0.2)

  train_predictions = lstm_model.predict(X_train)
  test_predictions = lstm_model.predict(X_test)

  train_predictions_inv = scaler.inverse_transform(train_predictions)
  test_predictions_inv = scaler.inverse_transform(test_predictions)
  y_test_inv = scaler.inverse_transform(y_test.reshape(-1, 1))
  ...
  future_predictions_inv = scaler.inverse_transform(np.array(future_predictions).reshape(-1, 1))
  ...
  test_loss = np.mean((test_predictions_inv.flatten() - y_test_inv.flatten())**2)
  \<close>
  Building and fitting the network is the parameter \<open>train\<close>: from the training windows
  and labels it gives the function that \<^verbatim>\<open>lstm_model.predict\<close> applies to a window.
  Fitting is taken to return: what Keras raises on a training set it cannot use is outside
  the model. \<^verbatim>\<open>np.mean\<close> of an empty array is NaN, modelled by \<open>None\<close>.
\<close>

definition train_size_of :: "nat \<Rightarrow> nat" where
  "train_size_of n = nat \<lfloor>real n * (8 / 10)\<rfloor>"

definition py_last_n :: "nat \<Rightarrow> real list \<Rightarrow> real list" where
  \<comment> \<open>\<^verbatim>\<open>a[-n:]\<close>; for \<open>n = 0\<close> this is \<^verbatim>\<open>a[0:]\<close>, the whole array\<close>
  "py_last_n n a = (if n = 0 then a else drop (length a - n) a)"

definition np_mean :: "real list \<Rightarrow> real option" where
  "np_mean a = (if a = [] then None else Some (sum_list a / real (length a)))"

definition squared_errors :: "real list \<Rightarrow> real list \<Rightarrow> real list" where
  "squared_errors p t = map (\<lambda>(a, b). (a - b)\<^sup>2) (zip p t)"

definition bind_err :: "error + 'a \<Rightarrow> ('a \<Rightarrow> error + 'b) \<Rightarrow> error + 'b" where
  "bind_err r f = (case r of Inl e \<Rightarrow> Inl e | Inr v \<Rightarrow> f v)"

record lstm_outputs =
  scaler :: min_max_scaler
  scaled_data :: "real list"
  windows :: "real list list"
  labels :: "real list"
  train_size :: nat
  test_predictions_inv :: "real list"
  y_test_inv :: "real list"
  future_predictions :: "real list"
  future_predictions_inv :: "real list"
  test_loss :: "real option"

definition lstm_section ::
  "(real list list \<Rightarrow> real list \<Rightarrow> real list \<Rightarrow> real) \<Rightarrow> real list \<Rightarrow> error + lstm_outputs" where
  "lstm_section train series =
     bind_err (fit_transform series) (\<lambda>(sc, sd).
     bind_err (make_windows sd look_back) (\<lambda>(X, y).
       let ts = train_size_of (length X);
           X_train = take ts X; X_test = drop ts X;
           y_train = take ts y; y_test = drop ts y;
           predict = train X_train y_train;
           train_predictions = map predict X_train;
           test_predictions = map predict X_test
       in
     bind_err (inverse_transform sc train_predictions) (\<lambda>train_predictions_inv.
     bind_err (inverse_transform sc test_predictions) (\<lambda>tp_inv.
     bind_err (inverse_transform sc y_test) (\<lambda>yt_inv.
     bind_err (forecast predict look_back (py_last_n look_back sd) future_steps)
       (\<lambda>(last_sequence, fp).
     bind_err (inverse_transform sc fp) (\<lambda>fp_inv.
       Inr \<lparr>scaler = sc, scaled_data = sd, windows = X, labels = y, train_size = ts,
            test_predictions_inv = tp_inv, y_test_inv = yt_inv,
            future_predictions = fp, future_predictions_inv = fp_inv,
            test_loss = np_mean (squared_errors tp_inv yt_inv)\<rparr>)))))))"

section \<open>The dates of the forecast\<close>

text \<open>
  \<^verbatim>\<open>
  future_dates = pd.date_range(start=df['ds'].max() + pd.DateOffset(years=1), periods=5, freq='Y')
  plt.plot(future_dates, future_predictions_inv.flatten(), ...)
  \<close>
  The column \<^verbatim>\<open>ds\<close> holds calendar dates. \<^verbatim>\<open>DateOffset(years=1)\<close> moves a date to
  the same month and day of the next year (the 29th of February to the 28th).
  \<^verbatim>\<open>date_range\<close> with the frequency \<^verbatim>\<open>'Y'\<close> (year end) gives the first 31st of
  December that is not before \<open>start\<close> and then the 31st of December of each following year.
  The maximum of an empty column is not a date, and \<^verbatim>\<open>date_range\<close> raises ValueError on it.
\<close>

record date =
  d_year :: int
  d_month :: nat
  d_day :: nat

definition date_less :: "date \<Rightarrow> date \<Rightarrow> bool" where
  "date_less a b \<longleftrightarrow>
     d_year a < d_year b \<or>
     (d_year a = d_year b \<and>
        (d_month a < d_month b \<or> (d_month a = d_month b \<and> d_day a < d_day b)))"

definition date_max :: "date \<Rightarrow> date \<Rightarrow> date" where
  "date_max a b = (if date_less a b then b else a)"

definition is_leap :: "int \<Rightarrow> bool" where
  "is_leap yr \<longleftrightarrow> yr mod 4 = 0 \<and> (yr mod 100 \<noteq> 0 \<or> yr mod 400 = 0)"

definition days_in_month :: "int \<Rightarrow> nat \<Rightarrow> nat" where
  "days_in_month yr m =
     (if m = 2 then (if is_leap yr then 29 else 28)
      else if m = 4 \<or> m = 6 \<or> m = 9 \<or> m = 11 then 30 else 31)"

definition date_offset_years :: "date \<Rightarrow> int \<Rightarrow> date" where
  "date_offset_years d n =
     \<lparr>d_year = d_year d + n, d_month = d_month d,
      d_day = min (d_day d) (days_in_month (d_year d + n) (d_month d))\<rparr>"

definition date_range_year_end :: "date \<Rightarrow> nat \<Rightarrow> date list" where
  "date_range_year_end start periods =
     map (\<lambda>k. \<lparr>d_year = d_year start + int k, d_month = 12, d_day = 31\<rparr>) [0..<periods]"

definition future_dates :: "date list \<Rightarrow> error + date list" where
  "future_dates ds =
     (case ds of
        [] \<Rightarrow> Inl ValueError
      | d # rest \<Rightarrow>
          Inr (date_range_year_end (date_offset_years (fold date_max rest d) 1) future_steps))"

text \<open>
  \<^verbatim>\<open>plt.plot(future_dates, future_predictions_inv.flatten(), ...)\<close> pairs the forecast
  dates with the denormalised forecasts; matplotlib raises ValueError when the two differ in
  length. The data frame is a list of rows \<open>(ds, y)\<close>, in the order of the file after
  \<^verbatim>\<open>df.sort_values('ds')\<close>.
\<close>

definition lstm_forecast_plot ::
  "(real list list \<Rightarrow> real list \<Rightarrow> real list \<Rightarrow> real) \<Rightarrow> (date \<times> real) list
     \<Rightarrow> error + (date \<times> real) list" where
  "lstm_forecast_plot train df =
     bind_err (lstm_section train (map snd df)) (\<lambda>r.
     bind_err (future_dates (map fst df)) (\<lambda>fd.
       if length fd = length (future_predictions_inv r)
       then Inr (zip fd (future_predictions_inv r)) else Inl ValueError))"

section \<open>The data updater's merge\<close>

text \<open>
  \<^verbatim>\<open>
  def integrate_new_data(self, new_data):
      try:
          current_df = pd.read_csv(self.data_file)
          new_df = pd.DataFrame(new_data)
          new_df = new_df.rename(columns={'year': 'ds', 'incidence': 'y'})
          new_df['ds'] = pd.to_datetime(new_df['ds'], format='%Y')
          updated_df = pd.concat([current_df, new_df], ignore_index=True)
          updated_df['ds'] = pd.to_datetime(updated_df['ds'])
          updated_df = updated_df.sort_values('ds').drop_duplicates(subset='ds')
          updated_df.to_csv(self.data_file, index=False)
          return updated_df
      except Exception as e:
          return None
  \<close>
  A row of the data frame has a date, a value and, for a fetched record, a source. The
  argument \<open>file\<close> is the data file as \<^verbatim>\<open>read_csv\<close> and \<^verbatim>\<open>to_datetime\<close> read it:
  its rows with their dates, or \<open>None\<close> when reading or parsing raises. A fetched record is
  a dictionary with the keys \<^verbatim>\<open>year\<close>, \<^verbatim>\<open>incidence\<close> and \<^verbatim>\<open>source\<close>;
  \<^verbatim>\<open>to_datetime\<close> with the format \<^verbatim>\<open>%Y\<close> turns its year into the first of January of
  that year and raises on a year that a nanosecond timestamp cannot hold. An empty batch
  gives a data frame without columns, on which \<^verbatim>\<open>new_df['ds']\<close> raises KeyError. Every
  exception ends in \<^verbatim>\<open>return None\<close> with nothing written.

  \<^verbatim>\<open>drop_duplicates(subset='ds')\<close> keeps, of the rows with one date, the first in the
  order of the frame. \<^verbatim>\<open>sort_values\<close> is a parameter of the model. pandas documents that
  it returns the rows in ascending order of the column and that its default kind,
  \<^verbatim>\<open>quicksort\<close>, is not stable. The function returns the content written to the file and
  the value returned.
\<close>

record row =
  r_ds :: date
  r_y :: real
  r_source :: "string option"

record who_point =
  p_year :: int
  p_incidence :: real
  p_source :: string

definition to_datetime_year :: "int \<Rightarrow> date option" where
  "to_datetime_year yr =
     (if 1678 \<le> yr \<and> yr \<le> 2262 then Some \<lparr>d_year = yr, d_month = 1, d_day = 1\<rparr> else None)"

definition new_rows :: "who_point list \<Rightarrow> row list option" where
  "new_rows new_data =
     (if new_data = [] then None
      else those (map (\<lambda>p. map_option
                          (\<lambda>d. \<lparr>r_ds = d, r_y = p_incidence p, r_source = Some (p_source p)\<rparr>)
                          (to_datetime_year (p_year p))) new_data))"

fun drop_duplicates_from :: "date list \<Rightarrow> row list \<Rightarrow> row list" where
  "drop_duplicates_from seen [] = []"
| "drop_duplicates_from seen (r # rest) =
     (if r_ds r \<in> set seen then drop_duplicates_from seen rest
      else r # drop_duplicates_from (r_ds r # seen) rest)"

definition drop_duplicates_ds :: "row list \<Rightarrow> row list" where
  "drop_duplicates_ds rows = drop_duplicates_from [] rows"

definition integrate_new_data ::
  "(row list \<Rightarrow> row list) \<Rightarrow> row list option \<Rightarrow> who_point list
     \<Rightarrow> row list option \<times> row list option" where
  "integrate_new_data sort_values file new_data =
     (case file of
        None \<Rightarrow> (None, None)
      | Some current_df \<Rightarrow>
          (case new_rows new_data of
             None \<Rightarrow> (None, None)
           | Some new_df \<Rightarrow>
               (let updated_df = current_df @ new_df;
                    updated_df = drop_duplicates_ds (sort_values updated_df)
                in (Some updated_df, Some updated_df))))"

subsection \<open>The sort that pandas uses by default\<close>

text \<open>
  With the default kind, \<^verbatim>\<open>sort_values\<close> orders the rows by numpy's \<^verbatim>\<open>argsort\<close> of the
  date column with \<^verbatim>\<open>kind='quicksort'\<close>: the routine \<^verbatim>\<open>aquicksort_\<close> of numpy's
  \<^verbatim>\<open>npysort/quicksort.cpp\<close>, an introsort on an array \<open>tosort\<close> of row numbers, compared
  through the values \<open>v\<close>. A range \<open>pl..pr\<close> of more than 17 entries is partitioned: the
  median of the first, middle and last entry becomes the pivot and is parked at \<open>pr - 1\<close>,
  two pointers scan towards each other and swap the entries they stop at
  (\<^verbatim>\<open>do ++pi; while (v[*pi] < vp);  do --pj; while (vp < v[*pj]);\<close>), and the pivot is
  swapped to where they meet. The smaller side is partitioned on, the larger one is put on
  a stack with the depth budget \<open>cdepth\<close>, which starts at twice the position of the highest
  bit of the length and falls by one with each partition; a range taken from the stack with
  a negative budget is sorted by \<^verbatim>\<open>aheapsort_\<close>. A range of at most 17 entries is sorted
  by insertion.

  The pointers of the C code are positions in \<open>tosort\<close> here, written \<open>ip\<close> and \<open>jp\<close>; the
  stack of pending ranges is the recursion. The two scans of the C code have no bound of
  their own: they stop at the pivot parked at \<open>pr - 1\<close> and at the entry at \<open>pl\<close>, which is
  not above the pivot. In the model they also stop at \<open>hi = pr\<close> and at \<open>lo = pl\<close>, which
  makes them total without changing a run of the C code.
\<close>

definition intp_swap :: "nat list \<Rightarrow> nat \<Rightarrow> nat \<Rightarrow> nat list" where
  "intp_swap a i j = a[i := a ! j, j := a ! i]"

function scan_up :: "('k \<Rightarrow> 'k \<Rightarrow> bool) \<Rightarrow> 'k list \<Rightarrow> 'k \<Rightarrow> nat list \<Rightarrow> nat \<Rightarrow> nat \<Rightarrow> nat" where
  "scan_up lt v vp a hi ip =
     (if Suc ip < hi \<and> lt (v ! (a ! Suc ip)) vp then scan_up lt v vp a hi (Suc ip)
      else Suc ip)"
  by pat_completeness auto
termination
  by (relation "measure (\<lambda>(lt, v, vp, a, hi, ip). hi - ip)") auto

declare scan_up.simps [simp del]

function scan_down :: "('k \<Rightarrow> 'k \<Rightarrow> bool) \<Rightarrow> 'k list \<Rightarrow> 'k \<Rightarrow> nat list \<Rightarrow> nat \<Rightarrow> nat \<Rightarrow> nat" where
  "scan_down lt v vp a lo jp =
     (if lo < jp - 1 \<and> lt vp (v ! (a ! (jp - 1))) then scan_down lt v vp a lo (jp - 1)
      else jp - 1)"
  by pat_completeness auto
termination
  by (relation "measure (\<lambda>(lt, v, vp, a, lo, jp). jp)") auto

declare scan_down.simps [simp del]

lemma scan_up_gt: "ip < scan_up lt v vp a hi ip"
  by (induction lt v vp a hi ip rule: scan_up.induct) (subst scan_up.simps, auto)

lemma scan_up_le: "ip < hi \<Longrightarrow> scan_up lt v vp a hi ip \<le> hi"
  by (induction lt v vp a hi ip rule: scan_up.induct) (subst scan_up.simps, auto)

lemma scan_down_le: "scan_down lt v vp a lo jp \<le> jp"
  by (induction lt v vp a lo jp rule: scan_down.induct) (subst scan_down.simps, auto)

function partition_loop ::
  "('k \<Rightarrow> 'k \<Rightarrow> bool) \<Rightarrow> 'k list \<Rightarrow> 'k \<Rightarrow> nat list \<Rightarrow> nat \<Rightarrow> nat \<Rightarrow> nat \<Rightarrow> nat \<Rightarrow> nat list \<times> nat" where
  "partition_loop lt v vp a lo hi ip jp =
     (let ip' = scan_up lt v vp a hi ip;
          jp' = scan_down lt v vp a lo jp
      in if ip' \<ge> jp' then (a, ip')
         else partition_loop lt v vp (intp_swap a ip' jp') lo hi ip' jp')"
  by pat_completeness auto
termination
proof (relation "measure (\<lambda>(lt, v, vp, a, lo, hi, ip, jp). jp - ip)", goal_cases)
  case 1
  show ?case by simp
next
  case (2 lt v vp a lo hi ip jp ip' jp')
  then show ?case
    using scan_up_gt [of ip lt v vp a hi] scan_down_le [of lt v vp a lo jp] by simp
qed

declare partition_loop.simps [simp del]

lemma partition_loop_bounds:
  assumes "partition_loop lt v vp a lo hi ip jp = (a', p)" and "ip < hi" and "jp \<le> hi"
  shows "ip < p \<and> p \<le> hi"
  using assms
proof (induction lt v vp a lo hi ip jp arbitrary: a' p rule: partition_loop.induct)
  case (1 lt v vp a lo hi ip jp)
  let ?ip = "scan_up lt v vp a hi ip" and ?jp = "scan_down lt v vp a lo jp"
  have up: "ip < ?ip" "?ip \<le> hi"
    using "1.prems"(2) by (simp_all add: scan_up_gt scan_up_le)
  have down: "?jp \<le> jp"
    by (rule scan_down_le)
  have eq: "partition_loop lt v vp a lo hi ip jp =
      (if ?jp \<le> ?ip then (a, ?ip)
       else partition_loop lt v vp (intp_swap a ?ip ?jp) lo hi ?ip ?jp)"
    by (simp only: partition_loop.simps [of lt v vp a lo hi ip jp] Let_def)
  show ?case
  proof (cases "?jp \<le> ?ip")
    case True
    with "1.prems"(1) eq have "p = ?ip"
      by auto
    with up show ?thesis by simp
  next
    case False
    with "1.prems"(1) eq
    have rec: "partition_loop lt v vp (intp_swap a ?ip ?jp) lo hi ?ip ?jp = (a', p)"
      by simp
    have b: "?ip < hi" "?jp \<le> hi"
      using False down "1.prems"(3) by simp_all
    have "?ip < p \<and> p \<le> hi"
      using False by (intro "1.IH" [OF refl refl _ rec b]) simp
    with up show ?thesis by simp
  qed
qed

definition quicksort_partition ::
  "('k \<Rightarrow> 'k \<Rightarrow> bool) \<Rightarrow> 'k list \<Rightarrow> nat list \<Rightarrow> nat \<Rightarrow> nat \<Rightarrow> nat list \<times> nat" where
  "quicksort_partition lt v a pl pr =
     (let pm = pl + (pr - pl) div 2;
          a1 = (if lt (v ! (a ! pm)) (v ! (a ! pl)) then intp_swap a pm pl else a);
          a2 = (if lt (v ! (a1 ! pr)) (v ! (a1 ! pm)) then intp_swap a1 pr pm else a1);
          a3 = (if lt (v ! (a2 ! pm)) (v ! (a2 ! pl)) then intp_swap a2 pm pl else a2);
          vp = v ! (a3 ! pm);
          a4 = intp_swap a3 pm (pr - 1)
      in case partition_loop lt v vp a4 pl pr pl (pr - 1) of
           (a5, ip) \<Rightarrow> (intp_swap a5 ip (pr - 1), ip))"

lemma partition_bounds:
  assumes "quicksort_partition lt v a pl pr = (a', p)" and "pl < pr"
  shows "pl < p \<and> p \<le> pr"
proof -
  from assms(1) obtain a4 vp a5 where loop: "partition_loop lt v vp a4 pl pr pl (pr - 1) = (a5, p)"
    by (auto simp: quicksort_partition_def Let_def split: prod.splits)
  have "pl < pr" "pr - 1 \<le> pr"
    using assms(2) by simp_all
  with loop show ?thesis
    by (rule partition_loop_bounds)
qed

fun insert_shift ::
  "('k \<Rightarrow> 'k \<Rightarrow> bool) \<Rightarrow> 'k list \<Rightarrow> 'k \<Rightarrow> nat \<Rightarrow> nat list \<Rightarrow> nat \<Rightarrow> nat \<Rightarrow> nat list" where
  "insert_shift lt v vp vi a pl 0 = a[0 := vi]"
| "insert_shift lt v vp vi a pl (Suc k) =
     (if Suc k > pl \<and> lt vp (v ! (a ! k))
      then insert_shift lt v vp vi (a[Suc k := a ! k]) pl k
      else a[Suc k := vi])"

definition insertion_sort ::
  "('k \<Rightarrow> 'k \<Rightarrow> bool) \<Rightarrow> 'k list \<Rightarrow> nat list \<Rightarrow> nat \<Rightarrow> nat \<Rightarrow> nat list" where
  "insertion_sort lt v a pl pr =
     fold (\<lambda>ip a. insert_shift lt v (v ! (a ! ip)) (a ! ip) a pl ip) [Suc pl..<Suc pr] a"

text \<open>The heap sort of a range of \<open>n\<close> entries that starts at position \<open>pl\<close>; entry \<open>k\<close> of the
  one-based array of the C code is position \<open>pl + k - 1\<close>.\<close>

function sift_down ::
  "('k \<Rightarrow> 'k \<Rightarrow> bool) \<Rightarrow> 'k list \<Rightarrow> nat list \<Rightarrow> nat \<Rightarrow> nat \<Rightarrow> nat \<Rightarrow> nat \<Rightarrow> nat \<Rightarrow> nat list" where
  "sift_down lt v a pl n tmp i j =
     (if 0 < j \<and> j \<le> n then
        (let j' = (if j < n \<and> lt (v ! (a ! (pl + j - 1))) (v ! (a ! (pl + (j + 1) - 1)))
                   then j + 1 else j)
         in if lt (v ! tmp) (v ! (a ! (pl + j' - 1)))
            then sift_down lt v (a[pl + i - 1 := a ! (pl + j' - 1)]) pl n tmp j' (j' + j')
            else a[pl + i - 1 := tmp])
      else a[pl + i - 1 := tmp])"
  by pat_completeness auto
termination
  by (relation "measure (\<lambda>(lt, v, a, pl, n, tmp, i, j). Suc n - j)") auto

declare sift_down.simps [simp del]

fun heap_build ::
  "('k \<Rightarrow> 'k \<Rightarrow> bool) \<Rightarrow> 'k list \<Rightarrow> nat list \<Rightarrow> nat \<Rightarrow> nat \<Rightarrow> nat \<Rightarrow> nat list" where
  "heap_build lt v a pl n 0 = a"
| "heap_build lt v a pl n (Suc l) =
     heap_build lt v (sift_down lt v a pl n (a ! (pl + Suc l - 1)) (Suc l) (Suc l * 2)) pl n l"

fun heap_extract ::
  "('k \<Rightarrow> 'k \<Rightarrow> bool) \<Rightarrow> 'k list \<Rightarrow> nat list \<Rightarrow> nat \<Rightarrow> nat \<Rightarrow> nat list" where
  "heap_extract lt v a pl 0 = a"
| "heap_extract lt v a pl (Suc m) =
     (if Suc m > 1
      then (let tmp = a ! (pl + Suc m - 1);
                a1 = a[pl + Suc m - 1 := a ! (pl + 1 - 1)]
            in heap_extract lt v (sift_down lt v a1 pl m tmp 1 2) pl m)
      else a)"

definition aheapsort ::
  "('k \<Rightarrow> 'k \<Rightarrow> bool) \<Rightarrow> 'k list \<Rightarrow> nat list \<Rightarrow> nat \<Rightarrow> nat \<Rightarrow> nat list" where
  "aheapsort lt v a pl n = heap_extract lt v (heap_build lt v a pl n (n div 2)) pl n"

lemma partition_bounds_sym:
  "(a', p) = quicksort_partition lt v a pl pr \<Longrightarrow> 16 < pr - pl \<Longrightarrow> pl < p \<and> p \<le> pr"
  using partition_bounds [of lt v a pl pr a' p] by simp

function aquicksort_range ::
  "('k \<Rightarrow> 'k \<Rightarrow> bool) \<Rightarrow> 'k list \<Rightarrow> nat list \<Rightarrow> nat \<Rightarrow> nat \<Rightarrow> int \<Rightarrow> nat list" where
  "aquicksort_range lt v a pl pr cdepth =
     (if pr - pl > 16 then
        (case quicksort_partition lt v a pl pr of
           (a', ip) \<Rightarrow>
             if ip - pl < pr - ip then
               (let a'' = aquicksort_range lt v a' pl (ip - 1) (cdepth - 1)
                in if cdepth - 1 < 0 then aheapsort lt v a'' (ip + 1) (pr - (ip + 1) + 1)
                   else aquicksort_range lt v a'' (ip + 1) pr (cdepth - 1))
             else
               (let a'' = aquicksort_range lt v a' (ip + 1) pr (cdepth - 1)
                in if cdepth - 1 < 0 then aheapsort lt v a'' pl (ip - 1 - pl + 1)
                   else aquicksort_range lt v a'' pl (ip - 1) (cdepth - 1)))
      else insertion_sort lt v a pl pr)"
  by pat_completeness auto
termination
  by (relation "measure (\<lambda>(lt, v, a, pl, pr, cdepth). pr - pl)")
    (auto dest: partition_bounds_sym)

declare aquicksort_range.simps [simp del]

fun npy_get_msb :: "nat \<Rightarrow> nat" where
  "npy_get_msb n = (if n div 2 = 0 then 0 else Suc (npy_get_msb (n div 2)))"

declare npy_get_msb.simps [simp del]

definition np_argsort_quicksort :: "('k \<Rightarrow> 'k \<Rightarrow> bool) \<Rightarrow> 'k list \<Rightarrow> nat list" where
  "np_argsort_quicksort lt v =
     aquicksort_range lt v [0..<length v] 0 (length v - 1) (2 * int (npy_get_msb (length v)))"

definition sort_values_quicksort :: "row list \<Rightarrow> row list" where
  "sort_values_quicksort rows =
     map (\<lambda>i. rows ! i) (np_argsort_quicksort date_less (map r_ds rows))"

subsection \<open>A stable sort, and what is required of any sort\<close>

text \<open>
  Insertion from the right, which leaves rows of equal date in input order: what
  \<^verbatim>\<open>sort_values('ds', kind='stable')\<close> would give. \<open>sorts_by_ds\<close> is what pandas promises
  of every kind of sort, \<open>keeps_input_order\<close> is stability.
\<close>

fun insort_ds :: "row \<Rightarrow> row list \<Rightarrow> row list" where
  "insort_ds r [] = [r]"
| "insort_ds r (x # rest) =
     (if date_less (r_ds x) (r_ds r) then x # insort_ds r rest else r # x # rest)"

definition sort_values_stable :: "row list \<Rightarrow> row list" where
  "sort_values_stable rows = foldr insort_ds rows []"

definition sorts_by_ds :: "(row list \<Rightarrow> row list) \<Rightarrow> bool" where
  "sorts_by_ds f \<longleftrightarrow>
     (\<forall>rows. mset (f rows) = mset rows \<and>
             sorted_wrt (\<lambda>a b. \<not> date_less (r_ds b) (r_ds a)) (f rows))"

definition keeps_input_order :: "(row list \<Rightarrow> row list) \<Rightarrow> bool" where
  "keeps_input_order f \<longleftrightarrow>
     (\<forall>rows d. filter (\<lambda>r. r_ds r = d) (f rows) = filter (\<lambda>r. r_ds r = d) rows)"

section \<open>Concrete inputs\<close>

text \<open>
  A regression function that predicts the mean of its window, whatever it was trained on,
  and the first eight years of the incidence table of \<^verbatim>\<open>data_updater.py\<close>.
\<close>

definition mean_predict :: "real list \<Rightarrow> real" where
  "mean_predict c = sum_list c / real (length c)"

definition mean_train :: "real list list \<Rightarrow> real list \<Rightarrow> real list \<Rightarrow> real" where
  "mean_train X y = mean_predict"

definition example_series :: "real list" where
  "example_series = [322, 315, 308, 301, 294, 287, 280, 276]"

definition example_df :: "(date \<times> real) list" where
  "example_df =
     map (\<lambda>(yr, v). (\<lparr>d_year = yr, d_month = 1, d_day = 1\<rparr>, v))
       [(2000, 322), (2001, 315), (2002, 308), (2003, 301),
        (2004, 294), (2005, 287), (2006, 280), (2007, 276)]"

text \<open>
  The years 2000 to 2016 of the incidence table of \<^verbatim>\<open>data_updater.py\<close> as the stored
  data, the projection of a merge result to its years and values, and a small stored data
  set with a batch that revises one of its years and adds a new one.
\<close>

definition stored_rows :: "row list" where
  "stored_rows =
     map (\<lambda>(yr, v). \<lparr>r_ds = \<lparr>d_year = yr, d_month = 1, d_day = 1\<rparr>, r_y = v, r_source = None\<rparr>)
       [(2000, 322), (2001, 315), (2002, 308), (2003, 301), (2004, 294),
        (2005, 287), (2006, 280), (2007, 276), (2008, 273), (2009, 270),
        (2010, 267), (2011, 264), (2012, 258), (2013, 256), (2014, 252),
        (2015, 248), (2016, 244)]"

definition years_values :: "row list option \<Rightarrow> (int \<times> real) list option" where
  "years_values = map_option (map (\<lambda>r. (d_year (r_ds r), r_y r)))"

definition small_stored :: "row list" where
  "small_stored = take 3 stored_rows"

definition small_fetched :: "who_point list" where
  "small_fetched =
     [\<lparr>p_year = 2001, p_incidence = 310, p_source = ''WHO''\<rparr>,
      \<lparr>p_year = 2003, p_incidence = 301, p_source = ''WHO''\<rparr>]"

definition small_merged :: "row list" where
  "small_merged =
     [\<lparr>r_ds = \<lparr>d_year = 2000, d_month = 1, d_day = 1\<rparr>, r_y = 322, r_source = None\<rparr>,
      \<lparr>r_ds = \<lparr>d_year = 2001, d_month = 1, d_day = 1\<rparr>, r_y = 315, r_source = None\<rparr>,
      \<lparr>r_ds = \<lparr>d_year = 2002, d_month = 1, d_day = 1\<rparr>, r_y = 308, r_source = None\<rparr>,
      \<lparr>r_ds = \<lparr>d_year = 2003, d_month = 1, d_day = 1\<rparr>, r_y = 301, r_source = Some ''WHO''\<rparr>]"

section \<open>Closed forms used in the proofs\<close>

text \<open>The scaler that \<open>fit\<close> returns on a non-empty series, written with \<open>Min\<close> and
  \<open>Max\<close>.\<close>

definition fitted :: "real list \<Rightarrow> min_max_scaler" where
  "fitted series =
     \<lparr>sc_data_min = Min (set series), sc_data_max = Max (set series),
      sc_data_range = Max (set series) - Min (set series),
      sc_scale = 1 / handle_zeros_in_scale (Max (set series) - Min (set series)),
      sc_min = - (Min (set series) / handle_zeros_in_scale (Max (set series) - Min (set series)))\<rparr>"

text \<open>The value of the whole section on a series long enough for a non-empty training
  and a non-empty test set.\<close>

definition section_value ::
  "(real list list \<Rightarrow> real list \<Rightarrow> real list \<Rightarrow> real) \<Rightarrow> real list \<Rightarrow> lstm_outputs" where
  "section_value train series =
     (let sc = fitted series;
          sd = map (\<lambda>x. x * sc_scale sc + sc_min sc) series;
          X = map (\<lambda>i. py_slice sd i (i + look_back)) [0..<length sd - look_back];
          y = drop look_back sd;
          ts = train_size_of (length X);
          predict = train (take ts X) (take ts y);
          inv = (\<lambda>p. (p - sc_min sc) / sc_scale sc);
          fp = spec_output predict (py_last_n look_back sd) future_steps;
          tp_inv = map inv (map predict (drop ts X));
          yt_inv = map inv (drop ts y)
      in \<lparr>scaler = sc, scaled_data = sd, windows = X, labels = y, train_size = ts,
           test_predictions_inv = tp_inv, y_test_inv = yt_inv,
           future_predictions = fp, future_predictions_inv = map inv fp,
           test_loss = np_mean (squared_errors tp_inv yt_inv)\<rparr>)"

section \<open>Properties of the forecasting loop\<close>

lemma forecast_step_width:
  assumes "length c = W" and "0 < W"
  shows "forecast_step predict W (c, outs) = Inr (tl c @ [predict c], outs @ [predict c])"
proof -
  from assms obtain x rest where c: "c = x # rest"
    by (cases c) auto
  have "(rest @ [x])[length rest := predict c] = rest @ [predict c]"
    by simp
  moreover have "W - Suc 0 = length rest"
    using assms c by auto
  ultimately show ?thesis
    using assms c
    by (simp add: forecast_step_def reshape_1_W_1_def np_roll_left_def set_last_def Let_def)
qed

lemma forecast_step_Inr:
  assumes "forecast_step predict W (c, outs) = Inr st'"
  shows "length c = W \<and> 0 < W \<and> st' = (tl c @ [predict c], outs @ [predict c])"
proof -
  have w: "length c = W"
    using assms by (auto simp: forecast_step_def reshape_1_W_1_def split: if_splits)
  have "c \<noteq> []"
    using assms w
    by (auto simp: forecast_step_def reshape_1_W_1_def np_roll_left_def set_last_def)
  with w have "0 < W" by auto
  with w assms show ?thesis by (simp add: forecast_step_width)
qed

lemma forecast_loop_snoc:
  "forecast_loop predict W (Suc k) st =
     (case forecast_loop predict W k st of
        Inl e \<Rightarrow> Inl e
      | Inr st' \<Rightarrow> forecast_step predict W st')"
proof (induction k arbitrary: st)
  case 0
  show ?case by (simp split: sum.splits)
next
  case (Suc k)
  show ?case
  proof (cases "forecast_step predict W st")
    case (Inl e)
    then show ?thesis by simp
  next
    case (Inr st1)
    have "forecast_loop predict W (Suc (Suc k)) st = forecast_loop predict W (Suc k) st1"
      using Inr by simp
    also have "\<dots> = (case forecast_loop predict W k st1 of
        Inl e \<Rightarrow> Inl e | Inr st' \<Rightarrow> forecast_step predict W st')"
      by (rule Suc.IH)
    also have "forecast_loop predict W k st1 = forecast_loop predict W (Suc k) st"
      using Inr by simp
    finally show ?thesis .
  qed
qed

lemma spec_context_length:
  "0 < length init \<Longrightarrow> length (spec_context predict init k) = length init"
  by (induction k) auto

lemma spec_output_length: "length (spec_output predict init K) = K"
  by (simp add: spec_output_def)

lemma spec_output_Suc:
  "spec_output predict init (Suc K) =
     spec_output predict init K @ [predict (spec_context predict init K)]"
  by (simp add: spec_output_def)

lemma forecast_refines_spec:
  assumes "length init = W" and "0 < W"
  shows "forecast predict W init K =
           Inr (spec_context predict init K, spec_output predict init K)"
proof (induction K)
  case 0
  show ?case by (simp add: forecast_def spec_output_def)
next
  case (Suc K)
  have len: "length (spec_context predict init K) = W"
    using assms by (simp add: spec_context_length)
  have "forecast predict W init (Suc K) =
          forecast_step predict W (spec_context predict init K, spec_output predict init K)"
    using Suc.IH by (simp only: forecast_def forecast_loop_snoc sum.case)
  also have "\<dots> = Inr (spec_context predict init (Suc K), spec_output predict init (Suc K))"
    using len assms(2) by (simp add: forecast_step_width spec_output_Suc)
  finally show ?case .
qed

lemma forecast_Inr_width:
  assumes "forecast predict W init K = Inr st" and "0 < K"
  shows "length init = W \<and> 0 < W"
proof -
  from assms(2) obtain k where K: "K = Suc k"
    by (cases K) auto
  from assms(1) K obtain st1 where "forecast_step predict W (init, []) = Inr st1"
    by (auto simp: forecast_def split: sum.splits)
  then show ?thesis
    using forecast_step_Inr by blast
qed

lemma take_spec_output:
  "k \<le> K \<Longrightarrow> take k (spec_output predict init K) = spec_output predict init k"
  by (simp add: spec_output_def take_map)

lemma spec_output_nth:
  "k < K \<Longrightarrow> spec_output predict init K ! k = predict (spec_context predict init k)"
  by (simp add: spec_output_def)

lemma take_drop_Suc_window:
  assumes "0 < W" and "k + W < length L"
  shows "take W (drop (Suc k) L) = tl (take W (drop k L)) @ [L ! (k + W)]"
proof -
  from assms(1) obtain w where W: "W = Suc w"
    by (cases W) auto
  have k: "k < length L"
    using assms by simp
  have "drop k L = L ! k # drop (Suc k) L"
    using k by (simp add: Cons_nth_drop_Suc)
  then have tl: "tl (take W (drop k L)) = take w (drop (Suc k) L)"
    using W by simp
  have "w < length (drop (Suc k) L)"
    using assms W by simp
  then have "take (Suc w) (drop (Suc k) L) = take w (drop (Suc k) L) @ [drop (Suc k) L ! w]"
    by (rule take_Suc_conv_app_nth)
  moreover have "drop (Suc k) L ! w = L ! (k + W)"
    using assms W by simp
  ultimately show ?thesis
    using tl W by simp
qed

lemma spec_context_from_output:
  assumes "length init = W" and "0 < W" and "k \<le> K"
  shows "spec_context predict init k = take W (drop k (init @ spec_output predict init K))"
  using assms(3)
proof (induction k)
  case 0
  show ?case using assms(1) by simp
next
  case (Suc k)
  let ?L = "init @ spec_output predict init K"
  have kK: "k < K" using Suc.prems by simp
  have IH: "spec_context predict init k = take W (drop k ?L)"
    using Suc.IH kK by simp
  have len: "k + W < length ?L"
    using assms(1) kK by (simp add: spec_output_length)
  have nth: "?L ! (k + W) = predict (spec_context predict init k)"
    using assms(1) kK by (simp add: nth_append spec_output_nth)
  have "take W (drop (Suc k) ?L) = tl (take W (drop k ?L)) @ [?L ! (k + W)]"
    using assms(2) len by (rule take_drop_Suc_window)
  then show ?case
    using IH nth by simp
qed

section \<open>Properties of the windowing loop\<close>

lemma windows_loop_map:
  assumes "\<forall>i\<in>set idx. i + W < length s"
  shows "windows_loop s W idx (X0, y0) =
           Inr (X0 @ map (\<lambda>i. py_slice s i (i + W)) idx, y0 @ map (\<lambda>i. s ! (i + W)) idx)"
  using assms
proof (induction idx arbitrary: X0 y0)
  case Nil
  show ?case by simp
next
  case (Cons i rest)
  then show ?case by (simp add: py_index_def)
qed

lemma make_windows_eq:
  assumes "W < length s"
  shows "make_windows s W =
           Inr (map (\<lambda>i. py_slice s i (i + W)) [0..<length s - W],
                map (\<lambda>i. s ! (i + W)) [0..<length s - W])"
proof -
  have "nat (int (length s) - int W) = length s - W"
    by simp
  moreover have "\<forall>i\<in>set [0..<length s - W]. i + W < length s"
    by auto
  ultimately show ?thesis
    by (simp add: make_windows_def py_range_def windows_loop_map)
qed

lemma py_slice_window:
  assumes "i + W \<le> length s"
  shows "length (py_slice s i (i + W)) = W" and "j < W \<Longrightarrow> py_slice s i (i + W) ! j = s ! (i + j)"
  using assms by (simp_all add: py_slice_def)

section \<open>Properties of the scaler\<close>

lemma handle_zeros_in_scale_pos: "0 < handle_zeros_in_scale r"
proof -
  have "(0::real) < 10 * float_eps"
    by (simp add: float_eps_def)
  then show ?thesis
    by (auto simp: handle_zeros_in_scale_def)
qed

lemma handle_zeros_in_scale_0: "handle_zeros_in_scale 0 = 1"
  by (simp add: handle_zeros_in_scale_def float_eps_def)

lemma fit_Cons:
  "fit (x # rest) =
     Inr \<lparr>sc_data_min = Min (set (x # rest)), sc_data_max = Max (set (x # rest)),
          sc_data_range = Max (set (x # rest)) - Min (set (x # rest)),
          sc_scale = 1 / handle_zeros_in_scale (Max (set (x # rest)) - Min (set (x # rest))),
          sc_min = - (Min (set (x # rest)) / handle_zeros_in_scale (Max (set (x # rest)) - Min (set (x # rest))))\<rparr>"
  by (simp add: fit_def Let_def Min.set_eq_fold Max.set_eq_fold del: set_simps)

lemma fit_nonempty: "series \<noteq> [] \<Longrightarrow> fit series = Inr (fitted series)"
  by (cases series) (simp_all add: fit_Cons fitted_def del: set_simps)

lemma fitted_scale_nonzero: "sc_scale (fitted series) \<noteq> 0"
  using handle_zeros_in_scale_pos [of "Max (set series) - Min (set series)"]
  by (simp add: fitted_def)

lemma inverse_of_transform:
  assumes "sc_scale sc \<noteq> 0"
  shows "(x * sc_scale sc + sc_min sc - sc_min sc) / sc_scale sc = x"
  using assms by simp

lemma inverse_value:
  "(p - sc_min (fitted series)) / sc_scale (fitted series) =
     p * handle_zeros_in_scale (Max (set series) - Min (set series)) + Min (set series)"
  using handle_zeros_in_scale_pos [of "Max (set series) - Min (set series)"]
  by (simp add: fitted_def field_simps)

lemma fit_transform_nonempty:
  assumes "series \<noteq> []"
  shows "fit_transform series =
           Inr (fitted series, map (\<lambda>x. x * sc_scale (fitted series) + sc_min (fitted series)) series)"
  using assms by (simp add: fit_transform_def fit_nonempty transform_def)

lemma inverse_transform_scaled:
  assumes "series \<noteq> []"
  shows "inverse_transform (fitted series)
           (map (\<lambda>x. x * sc_scale (fitted series) + sc_min (fitted series)) series) = Inr series"
  using assms fitted_scale_nonzero [of series]
  by (simp add: inverse_transform_def o_def map_idI)

lemma constant_min_max:
  assumes "series \<noteq> []" and "\<forall>x\<in>set series. x = c"
  shows "Min (set series) = c" and "Max (set series) = c"
proof -
  have "set series = {c}"
    using assms by (cases series) auto
  then show "Min (set series) = c" and "Max (set series) = c"
    by simp_all
qed

section \<open>Properties of the whole section\<close>

lemma train_size_of_eq: "train_size_of n = (8 * n) div 10"
proof -
  have "real n * (8 / 10) = real (8 * n) / real 10"
    by simp
  then have "\<lfloor>real n * (8 / 10)\<rfloor> = \<lfloor>real (8 * n) / real 10\<rfloor>"
    by (rule arg_cong)
  also have "\<dots> = int ((8 * n) div 10)"
    by (rule floor_divide_of_nat_eq)
  finally show ?thesis
    by (simp add: train_size_of_def)
qed

lemma train_size_of_bounds:
  assumes "2 \<le> n"
  shows "0 < train_size_of n" and "train_size_of n < n"
  using assms by (simp_all add: train_size_of_eq)

lemma labels_are_drop:
  "map (\<lambda>i. s ! (i + W)) [0..<length s - W] = drop W s"
  by (rule nth_equalityI) (simp_all add: add.commute)

lemma py_last_n_length:
  assumes "W \<le> length s" and "0 < W"
  shows "length (py_last_n W s) = W"
  using assms by (simp add: py_last_n_def)

lemma lstm_section_long_series:
  assumes "look_back + 2 \<le> length series"
  shows "lstm_section train series = Inr (section_value train series)"
proof -
  define sc where "sc = fitted series"
  define sd where "sd = map (\<lambda>x. x * sc_scale sc + sc_min sc) series"
  define X where "X = map (\<lambda>i. py_slice sd i (i + look_back)) [0..<length sd - look_back]"
  define y where "y = drop look_back sd"
  define ts where "ts = train_size_of (length X)"
  define predict where "predict = train (take ts X) (take ts y)"
  define fp where "fp = spec_output predict (py_last_n look_back sd) future_steps"
  have ne: "series \<noteq> []"
    using assms by auto
  have len_sd: "length sd = length series"
    by (simp add: sd_def)
  have lb: "look_back < length sd" "look_back \<le> length sd" "0 < look_back"
    using assms by (simp_all add: len_sd look_back_def)
  have ft: "fit_transform series = Inr (sc, sd)"
    using ne by (simp add: fit_transform_nonempty sc_def sd_def)
  have mw: "make_windows sd look_back = Inr (X, y)"
    using lb(1) by (simp add: make_windows_eq X_def y_def labels_are_drop)
  have lenX: "length X = length series - look_back" "length y = length series - look_back"
    by (simp_all add: X_def y_def len_sd)
  have "2 \<le> length X"
    using assms lenX by simp
  then have ts: "0 < ts" "ts < length X"
    unfolding ts_def by (rule train_size_of_bounds)+
  have nonempty: "take ts X \<noteq> []" "drop ts X \<noteq> []" "drop ts y \<noteq> []"
    using ts lenX by auto
  have fc: "forecast predict look_back (py_last_n look_back sd) future_steps =
              Inr (spec_context predict (py_last_n look_back sd) future_steps, fp)"
    unfolding fp_def using lb by (intro forecast_refines_spec py_last_n_length)
  have fp_ne: "fp \<noteq> []"
    using spec_output_length [of predict "py_last_n look_back sd" future_steps]
    by (auto simp: fp_def future_steps_def)
  have "lstm_section train series =
          Inr \<lparr>scaler = sc, scaled_data = sd, windows = X, labels = y, train_size = ts,
               test_predictions_inv = map (\<lambda>p. (p - sc_min sc) / sc_scale sc) (map predict (drop ts X)),
               y_test_inv = map (\<lambda>p. (p - sc_min sc) / sc_scale sc) (drop ts y),
               future_predictions = fp,
               future_predictions_inv = map (\<lambda>p. (p - sc_min sc) / sc_scale sc) fp,
               test_loss = np_mean (squared_errors
                 (map (\<lambda>p. (p - sc_min sc) / sc_scale sc) (map predict (drop ts X)))
                 (map (\<lambda>p. (p - sc_min sc) / sc_scale sc) (drop ts y)))\<rparr>"
    using nonempty fp_ne
    by (simp add: lstm_section_def bind_err_def ft mw Let_def inverse_transform_def
        ts_def [symmetric] predict_def [symmetric] fc)
  also have "\<dots> = Inr (section_value train series)"
    by (simp add: section_value_def Let_def sc_def sd_def X_def y_def ts_def predict_def fp_def)
  finally show ?thesis .
qed

lemma squared_errors_sum:
  assumes "length a = length b"
  shows "sum_list (squared_errors a b) = (\<Sum>i<length a. (a ! i - b ! i)\<^sup>2)"
proof -
  have "sum_list (squared_errors a b) =
          (\<Sum>i = 0..<length (squared_errors a b). squared_errors a b ! i)"
    by (rule sum_list_sum_nth)
  also have "\<dots> = (\<Sum>i = 0..<length a. (a ! i - b ! i)\<^sup>2)"
    using assms by (simp add: squared_errors_def)
  finally show ?thesis
    by (simp add: atLeast0LessThan)
qed

lemma np_mean_squared_errors:
  assumes "length a = length b" and "a \<noteq> []"
  shows "np_mean (squared_errors a b) =
           Some ((\<Sum>i<length a. (a ! i - b ! i)\<^sup>2) / real (length a))"
proof -
  have "squared_errors a b \<noteq> []"
    using assms by (cases a; cases b) (simp_all add: squared_errors_def)
  moreover have "length (squared_errors a b) = length a"
    using assms by (simp add: squared_errors_def)
  ultimately show ?thesis
    using assms by (simp add: np_mean_def squared_errors_sum)
qed

lemma inverse_map_scaled:
  "map (\<lambda>p. (p - sc_min (fitted series)) / sc_scale (fitted series))
     (map (\<lambda>x. x * sc_scale (fitted series) + sc_min (fitted series)) series) = series"
  using fitted_scale_nonzero [of series] by (simp add: o_def map_idI)

lemma date_max_year:
  "d_year a \<le> d_year (date_max a b)" "d_year b \<le> d_year (date_max a b)"
  by (auto simp: date_max_def date_less_def)

lemma fold_date_max:
  "fold date_max rest d \<in> set (d # rest) \<and>
   (\<forall>x\<in>set (d # rest). d_year x \<le> d_year (fold date_max rest d))"
proof (induction rest arbitrary: d)
  case Nil
  show ?case by simp
next
  case (Cons x rest)
  have mem: "date_max x d \<in> {d, x}"
    by (simp add: date_max_def)
  from Cons.IH [of "date_max x d"]
  have IH1: "fold date_max rest (date_max x d) \<in> set (date_max x d # rest)"
    and IH2: "\<forall>z\<in>set (date_max x d # rest). d_year z \<le> d_year (fold date_max rest (date_max x d))"
    by blast+
  have "fold date_max rest (date_max x d) \<in> set (d # x # rest)"
    using IH1 mem by auto
  moreover have "d_year z \<le> d_year (fold date_max rest (date_max x d))"
    if "z \<in> set (d # x # rest)" for z
  proof -
    have top: "d_year (date_max x d) \<le> d_year (fold date_max rest (date_max x d))"
      using IH2 by simp
    from that consider "z = d" | "z = x" | "z \<in> set rest" by auto
    then show ?thesis
    proof cases
      case 1
      then show ?thesis using top date_max_year(2) [of d x] by simp
    next
      case 2
      then show ?thesis using top date_max_year(1) [of x d] by simp
    next
      case 3
      then show ?thesis using IH2 by simp
    qed
  qed
  ultimately show ?case by simp
qed

lemma fold_date_max_year:
  "d_year (fold date_max rest d) = Max (d_year ` set (d # rest))"
proof -
  have "Max (d_year ` set (d # rest)) = d_year (fold date_max rest d)"
  proof (rule Max_eqI)
    show "finite (d_year ` set (d # rest))" by simp
    show "y \<le> d_year (fold date_max rest d)" if "y \<in> d_year ` set (d # rest)" for y
      using that fold_date_max [of rest d] by blast
    show "d_year (fold date_max rest d) \<in> d_year ` set (d # rest)"
      using fold_date_max [of rest d] by blast
  qed
  then show ?thesis by simp
qed

lemma future_dates_nonempty:
  assumes "ds \<noteq> []"
  shows "future_dates ds =
           Inr (map (\<lambda>k. \<lparr>d_year = Max (d_year ` set ds) + 1 + int k, d_month = 12, d_day = 31\<rparr>)
                  [0..<future_steps])"
proof -
  from assms obtain d rest where ds: "ds = d # rest"
    by (cases ds) auto
  show ?thesis
    unfolding ds
    by (simp add: future_dates_def date_range_year_end_def date_offset_years_def
        fold_date_max_year del: set_simps)
qed

lemma later_year_later_date: "d_year a < d_year b \<Longrightarrow> date_less a b"
  by (simp add: date_less_def)

section \<open>Properties of the merge\<close>

lemma date_less_irrefl: "\<not> date_less a a"
  by (simp add: date_less_def)

lemma date_less_trans: "date_less a b \<Longrightarrow> date_less b c \<Longrightarrow> date_less a c"
  by (auto simp: date_less_def)

lemma date_less_asym: "date_less a b \<Longrightarrow> \<not> date_less b a"
  by (auto simp: date_less_def)

lemma date_less_total: "a \<noteq> b \<Longrightarrow> \<not> date_less b a \<Longrightarrow> date_less a (b :: date)"
  by (cases a; cases b) (auto simp: date_less_def)

lemma date_not_less_trans:
  "\<not> date_less b a \<Longrightarrow> \<not> date_less c b \<Longrightarrow> \<not> date_less c a"
  by (auto simp: date_less_def)

lemma drop_duplicates_from_subset: "set (drop_duplicates_from seen rows) \<subseteq> set rows"
  by (induction rows arbitrary: seen) auto

lemma drop_duplicates_from_unseen:
  "r \<in> set (drop_duplicates_from seen rows) \<Longrightarrow> r_ds r \<notin> set seen"
proof (induction rows arbitrary: seen)
  case Nil
  then show ?case by simp
next
  case (Cons x rest)
  show ?case
  proof (cases "r_ds x \<in> set seen")
    case True
    with Cons.prems have "r \<in> set (drop_duplicates_from seen rest)"
      by simp
    then show ?thesis by (rule Cons.IH)
  next
    case False
    with Cons.prems consider "r = x" | "r \<in> set (drop_duplicates_from (r_ds x # seen) rest)"
      by auto
    then show ?thesis
    proof cases
      case 1
      with False show ?thesis by simp
    next
      case 2
      then have "r_ds r \<notin> set (r_ds x # seen)"
        by (rule Cons.IH)
      then show ?thesis by simp
    qed
  qed
qed

lemma drop_duplicates_from_keys:
  "r_ds ` set (drop_duplicates_from seen rows) = r_ds ` set rows - set seen"
proof (induction rows arbitrary: seen)
  case Nil
  show ?case by simp
next
  case (Cons r rest)
  show ?case
  proof (cases "r_ds r \<in> set seen")
    case True
    then show ?thesis using Cons.IH [of seen] by auto
  next
    case False
    then show ?thesis using Cons.IH [of "r_ds r # seen"] by auto
  qed
qed

lemma drop_duplicates_from_distinct: "distinct (map r_ds (drop_duplicates_from seen rows))"
proof (induction rows arbitrary: seen)
  case Nil
  show ?case by simp
next
  case (Cons r rest)
  have "r_ds x \<noteq> r_ds r" if "x \<in> set (drop_duplicates_from (r_ds r # seen) rest)" for x
    using drop_duplicates_from_unseen [OF that] by simp
  then have "r_ds r \<notin> r_ds ` set (drop_duplicates_from (r_ds r # seen) rest)"
    by force
  then show ?case using Cons.IH by simp
qed

lemma drop_duplicates_from_strictly_sorted:
  assumes "sorted_wrt (\<lambda>a b. \<not> date_less (r_ds b) (r_ds a)) rows"
  shows "sorted_wrt (\<lambda>a b. date_less (r_ds a) (r_ds b)) (drop_duplicates_from seen rows)"
  using assms
proof (induction rows arbitrary: seen)
  case Nil
  show ?case by simp
next
  case (Cons r rest)
  have later: "date_less (r_ds r) (r_ds x)"
    if "x \<in> set (drop_duplicates_from (r_ds r # seen) rest)" for x
  proof -
    have "x \<in> set rest"
      using that drop_duplicates_from_subset by blast
    then have "\<not> date_less (r_ds x) (r_ds r)"
      using Cons.prems by simp
    moreover have "r_ds x \<noteq> r_ds r"
      using drop_duplicates_from_unseen [OF that] by simp
    ultimately show ?thesis
      using date_less_total [of "r_ds r" "r_ds x"] by simp
  qed
  from Cons.prems have "sorted_wrt (\<lambda>a b. \<not> date_less (r_ds b) (r_ds a)) rest"
    by simp
  then show ?case
    using Cons.IH later by simp
qed

lemma drop_duplicates_from_first:
  assumes "r \<in> set (drop_duplicates_from seen rows)"
  shows "r = hd (filter (\<lambda>x. r_ds x = r_ds r) rows)"
  using assms
proof (induction rows arbitrary: seen)
  case Nil
  then show ?case by simp
next
  case (Cons x rest)
  show ?case
  proof (cases "r_ds x \<in> set seen")
    case True
    with Cons.prems have mem: "r \<in> set (drop_duplicates_from seen rest)"
      by simp
    then have "r_ds r \<notin> set seen"
      by (rule drop_duplicates_from_unseen)
    with True have "r_ds x \<noteq> r_ds r"
      by auto
    then show ?thesis
      using Cons.IH [OF mem] by simp
  next
    case False
    with Cons.prems consider "r = x" | "r \<in> set (drop_duplicates_from (r_ds x # seen) rest)"
      by auto
    then show ?thesis
    proof cases
      case 1
      then show ?thesis by simp
    next
      case 2
      then have "r_ds r \<notin> set (r_ds x # seen)"
        by (rule drop_duplicates_from_unseen)
      then have "r_ds x \<noteq> r_ds r"
        by auto
      then show ?thesis
        using Cons.IH [OF 2] by simp
    qed
  qed
qed

lemma hd_filter_append:
  assumes "d \<in> r_ds ` set xs"
  shows "hd (filter (\<lambda>x. r_ds x = d) (xs @ ys)) = hd (filter (\<lambda>x. r_ds x = d) xs)"
proof -
  have "filter (\<lambda>x. r_ds x = d) xs \<noteq> []"
    using assms by (auto simp: filter_empty_conv)
  then show ?thesis by simp
qed

text \<open>
  The default sort on the stored years 2000 to 2016 followed by a fetched row for 2003: the
  fetched row, number 17, comes in front of the stored row of 2003, number 3.
\<close>

lemma np_argsort_quicksort_stored_and_fetched:
  "np_argsort_quicksort date_less
     (map r_ds stored_rows @ [\<lparr>d_year = 2003, d_month = 1, d_day = 1\<rparr>]) =
   [0, 1, 2, 17, 3, 4, 5, 6, 7, 8, 9, 10, 11, 12, 13, 14, 15, 16]"
  by code_simp

lemma insort_ds_mset: "mset (insort_ds r rows) = add_mset r (mset rows)"
  by (induction rows) simp_all

lemma insort_ds_set: "set (insort_ds r rows) = insert r (set rows)"
  by (induction rows) auto

lemma insort_ds_sorted:
  assumes "sorted_wrt (\<lambda>a b. \<not> date_less (r_ds b) (r_ds a)) rows"
  shows "sorted_wrt (\<lambda>a b. \<not> date_less (r_ds b) (r_ds a)) (insort_ds r rows)"
  using assms
proof (induction rows)
  case Nil
  show ?case by simp
next
  case (Cons x rest)
  show ?case
  proof (cases "date_less (r_ds x) (r_ds r)")
    case True
    then have "\<not> date_less (r_ds r) (r_ds x)"
      by (rule date_less_asym)
    with True Cons show ?thesis
      by (auto simp: insort_ds_set)
  next
    case False
    have "\<not> date_less (r_ds y) (r_ds r)" if "y \<in> set rest" for y
    proof -
      have "\<not> date_less (r_ds y) (r_ds x)"
        using Cons.prems that by simp
      with False show ?thesis
        using date_not_less_trans by blast
    qed
    with False Cons.prems show ?thesis by simp
  qed
qed

lemma insort_ds_filter:
  "filter (\<lambda>x. r_ds x = d) (insort_ds r rows) =
     (if r_ds r = d then r # filter (\<lambda>x. r_ds x = d) rows else filter (\<lambda>x. r_ds x = d) rows)"
  by (induction rows) (auto simp: date_less_irrefl)

lemma sort_values_stable_sorts: "sorts_by_ds sort_values_stable"
proof -
  have "mset (foldr insort_ds rows []) = mset rows" for rows
    by (induction rows) (simp_all add: insort_ds_mset)
  moreover have "sorted_wrt (\<lambda>a b. \<not> date_less (r_ds b) (r_ds a)) (foldr insort_ds rows [])" for rows
    by (induction rows) (simp_all add: insort_ds_sorted)
  ultimately show ?thesis
    by (simp add: sorts_by_ds_def sort_values_stable_def)
qed

lemma sort_values_stable_keeps_input_order: "keeps_input_order sort_values_stable"
proof -
  have "filter (\<lambda>x. r_ds x = d) (foldr insort_ds rows []) = filter (\<lambda>x. r_ds x = d) rows" for rows d
    by (induction rows) (simp_all add: insort_ds_filter)
  then show ?thesis
    by (simp add: keeps_input_order_def sort_values_stable_def)
qed

section \<open>The claims\<close>

text \<open>
  Claim C1. The loop follows the sliding-window recursion of the specification: on an initial
  context of the window width \<open>W > 0\<close> and for any number of steps \<open>K\<close>, it returns the
  context and the outputs of the specification's recursion. The context in front of step
  \<open>k + 1\<close> is the window of width \<open>W\<close> at offset \<open>k\<close> in the initial context followed
  by the outputs, so the first prediction is made from the initial context unchanged and the
  whole context history is read off the initial context and the output sequence.
\<close>

theorem forecast_sliding_window:
  assumes "length init = W" and "0 < W"
  shows "\<exists>ctx outs. forecast predict W init K = Inr (ctx, outs) \<and>
           ctx = spec_context predict init K \<and> outs = spec_output predict init K \<and>
           (\<forall>k\<le>K. forecast predict W init k = Inr (take W (drop k (init @ outs)), take k outs)) \<and>
           (\<forall>k<K. outs ! k = predict (take W (drop k (init @ outs))))"
proof -
  let ?outs = "spec_output predict init K"
  have run: "forecast predict W init K = Inr (spec_context predict init K, ?outs)"
    using assms by (rule forecast_refines_spec)
  have hist: "forecast predict W init k = Inr (take W (drop k (init @ ?outs)), take k ?outs)"
    if "k \<le> K" for k
    using that assms
    by (simp add: forecast_refines_spec take_spec_output spec_context_from_output)
  have pred: "?outs ! k = predict (take W (drop k (init @ ?outs)))" if "k < K" for k
  proof -
    have "k \<le> K" using that by simp
    with assms have "spec_context predict init k = take W (drop k (init @ ?outs))"
      by (rule spec_context_from_output)
    then show ?thesis using that by (simp add: spec_output_nth)
  qed
  show ?thesis using run hist pred by blast
qed

theorem forecast_sliding_window_witness:
  "length [0, 1 / 4, 1 / 2, 1 :: real] = 4 \<and> 0 < (4::nat) \<and>
   forecast mean_predict 4 [0, 1 / 4, 1 / 2, 1] 2
     = Inr ([1 / 2, 1, 7 / 16, 35 / 64], [7 / 16, 35 / 64]) \<and>
   (\<exists>ctx outs. forecast mean_predict 4 [0, 1 / 4, 1 / 2, 1] 2 = Inr (ctx, outs) \<and>
      ctx = spec_context mean_predict [0, 1 / 4, 1 / 2, 1] 2 \<and>
      outs = spec_output mean_predict [0, 1 / 4, 1 / 2, 1] 2 \<and>
      forecast mean_predict 4 [0, 1 / 4, 1 / 2, 1] 1
        = Inr (take 4 (drop 1 ([0, 1 / 4, 1 / 2, 1] @ outs)), take 1 outs) \<and>
      outs ! 1 = mean_predict (take 4 (drop 1 ([0, 1 / 4, 1 / 2, 1] @ outs))))"
proof -
  have len: "length [0, 1 / 4, 1 / 2, 1 :: real] = 4" and pos: "0 < (4::nat)"
    by simp_all
  have run: "forecast mean_predict 4 [0, 1 / 4, 1 / 2, 1] 2
      = Inr ([1 / 2, 1, 7 / 16, 35 / 64], [7 / 16, 35 / 64])"
    by code_simp
  from forecast_sliding_window [OF len pos, of mean_predict 2]
  obtain ctx outs where
    "forecast mean_predict 4 [0, 1 / 4, 1 / 2, 1] 2 = Inr (ctx, outs)"
    "ctx = spec_context mean_predict [0, 1 / 4, 1 / 2, 1] 2"
    "outs = spec_output mean_predict [0, 1 / 4, 1 / 2, 1] 2"
    "\<forall>k\<le>2. forecast mean_predict 4 [0, 1 / 4, 1 / 2, 1] k
        = Inr (take 4 (drop k ([0, 1 / 4, 1 / 2, 1] @ outs)), take k outs)"
    "\<forall>k<2. outs ! k = mean_predict (take 4 (drop k ([0, 1 / 4, 1 / 2, 1] @ outs)))"
    by blast
  note facts = this
  have "(1::nat) \<le> 2" and "(1::nat) < 2"
    by simp_all
  note steps = facts(4) [rule_format, OF \<open>1 \<le> 2\<close>] facts(5) [rule_format, OF \<open>1 < 2\<close>]
  show ?thesis
    by (intro conjI exI [of _ ctx] exI [of _ outs]) (rule len pos run facts(1-3) steps)+
qed

text \<open>
  Claim C2. The forecast returns exactly \<open>K\<close> values, step 1 first. On an initial context
  of the window width the loop returns; whenever it returns, on any input, the output holds
  exactly \<open>K\<close> values, the first one is the prediction from the initial context, and the
  first \<open>k\<close> of them are the output of the run of \<open>k\<close> steps. An input on which the loop
  raises gives no output at all.
\<close>

theorem forecast_returns_K_values:
  "(length init = W \<and> 0 < W \<longrightarrow> (\<exists>c outs. forecast predict W init K = Inr (c, outs))) \<and>
   (\<forall>c outs. forecast predict W init K = Inr (c, outs) \<longrightarrow>
      length outs = K \<and> (0 < K \<longrightarrow> outs ! 0 = predict init) \<and>
      (\<forall>k\<le>K. \<exists>c'. forecast predict W init k = Inr (c', take k outs)))"
proof (intro conjI allI impI)
  assume "length init = W \<and> 0 < W"
  then show "\<exists>c outs. forecast predict W init K = Inr (c, outs)"
    by (simp add: forecast_refines_spec)
next
  fix c outs
  assume run: "forecast predict W init K = Inr (c, outs)"
  show "length outs = K"
  proof (cases "0 < K")
    case True
    with run have "length init = W \<and> 0 < W" by (rule forecast_Inr_width)
    with run show ?thesis by (auto simp add: forecast_refines_spec spec_output_length)
  next
    case False
    with run show ?thesis by (simp add: forecast_def)
  qed
next
  fix c outs
  assume run: "forecast predict W init K = Inr (c, outs)" and K: "0 < K"
  from run K have "length init = W \<and> 0 < W" by (rule forecast_Inr_width)
  with run K show "outs ! 0 = predict init"
    by (auto simp add: forecast_refines_spec spec_output_nth)
next
  fix c outs k
  assume run: "forecast predict W init K = Inr (c, outs)" and k: "k \<le> K"
  show "\<exists>c'. forecast predict W init k = Inr (c', take k outs)"
  proof (cases "0 < K")
    case True
    with run have "length init = W \<and> 0 < W" by (rule forecast_Inr_width)
    with run k show ?thesis by (auto simp add: forecast_refines_spec take_spec_output)
  next
    case False
    with run k show ?thesis by (simp add: forecast_def)
  qed
qed

theorem forecast_returns_K_values_witness:
  "length [0, 1 / 4, 1 / 2, 1 :: real] = 4 \<and> 0 < (4::nat) \<and>
   forecast mean_predict 4 [0, 1 / 4, 1 / 2, 1] 3
     = Inr ([1, 7 / 16, 35 / 64, 159 / 256], [7 / 16, 35 / 64, 159 / 256]) \<and>
   length [7 / 16, 35 / 64, 159 / 256 :: real] = 3 \<and>
   [7 / 16, 35 / 64, 159 / 256] ! 0 = mean_predict [0, 1 / 4, 1 / 2, 1] \<and>
   (\<exists>c'. forecast mean_predict 4 [0, 1 / 4, 1 / 2, 1] 2
      = Inr (c', take 2 [7 / 16, 35 / 64, 159 / 256]))"
proof -
  have run: "forecast mean_predict 4 [0, 1 / 4, 1 / 2, 1] 3
      = Inr ([1, 7 / 16, 35 / 64, 159 / 256], [7 / 16, 35 / 64, 159 / 256])"
    by code_simp
  note ret = forecast_returns_K_values [of "[0, 1 / 4, 1 / 2, 1]" 4 mean_predict 3,
      THEN conjunct2, rule_format, OF run]
  have len: "length [0, 1 / 4, 1 / 2, 1 :: real] = 4" and pos: "0 < (4::nat)"
    and "(0::nat) < 3" and "(2::nat) \<le> 3"
    by simp_all
  show ?thesis
    by (intro conjI)
      (rule len pos run ret [THEN conjunct1]
        ret [THEN conjunct2, THEN conjunct1, rule_format, OF \<open>0 < 3\<close>]
        ret [THEN conjunct2, THEN conjunct2, rule_format, OF \<open>2 \<le> 3\<close>])+
qed

text \<open>
  Claim C3. On a series of length \<open>N > W\<close> the windowing loop returns exactly \<open>N - W\<close>
  windows and as many labels, in input order: window \<open>i\<close> holds the \<open>W\<close> entries \<open>i\<close> to
  \<open>i + W - 1\<close> of the series and label \<open>i\<close> is entry \<open>i + W\<close>.
\<close>

theorem make_windows_pairs:
  assumes "W < length s"
  shows "\<exists>X y. make_windows s W = Inr (X, y) \<and>
           length X = length s - W \<and> length y = length s - W \<and>
           (\<forall>i<length s - W.
              length (X ! i) = W \<and> (\<forall>j<W. X ! i ! j = s ! (i + j)) \<and> y ! i = s ! (i + W))"
proof -
  let ?X = "map (\<lambda>i. py_slice s i (i + W)) [0..<length s - W]"
  let ?y = "map (\<lambda>i. s ! (i + W)) [0..<length s - W]"
  have "make_windows s W = Inr (?X, ?y)"
    using assms by (rule make_windows_eq)
  moreover have "length (?X ! i) = W \<and> (\<forall>j<W. ?X ! i ! j = s ! (i + j)) \<and> ?y ! i = s ! (i + W)"
    if "i < length s - W" for i
    using that by (simp add: py_slice_window)
  ultimately show ?thesis by simp
qed

theorem make_windows_pairs_witness:
  "4 < length example_series \<and>
   make_windows example_series 4 =
     Inr ([[322, 315, 308, 301], [315, 308, 301, 294], [308, 301, 294, 287], [301, 294, 287, 280]],
          [294, 287, 280, 276]) \<and>
   (\<exists>X y. make_windows example_series 4 = Inr (X, y) \<and>
      length X = length example_series - 4 \<and> length y = length example_series - 4 \<and>
      length (X ! 2) = 4 \<and> X ! 2 ! 3 = example_series ! (2 + 3) \<and>
      y ! 2 = example_series ! (2 + 4))"
proof -
  have long: "4 < length example_series"
    by (simp add: example_series_def)
  have run: "make_windows example_series 4 =
     Inr ([[322, 315, 308, 301], [315, 308, 301, 294], [308, 301, 294, 287], [301, 294, 287, 280]],
          [294, 287, 280, 276])"
    by code_simp
  from make_windows_pairs [OF long]
  obtain X y where "make_windows example_series 4 = Inr (X, y)"
    and "length X = length example_series - 4" and "length y = length example_series - 4"
    and each: "\<forall>i<length example_series - 4.
      length (X ! i) = 4 \<and> (\<forall>j<4. X ! i ! j = example_series ! (i + j)) \<and>
      y ! i = example_series ! (i + 4)"
    by blast
  note facts = this
  have i: "(2::nat) < length example_series - 4" and j: "(3::nat) < 4"
    by (simp_all add: example_series_def)
  note at = facts(4) [rule_format, OF i]
  show ?thesis
    by (intro conjI exI [of _ X] exI [of _ y])
      (rule long run facts(1-3) at [THEN conjunct1]
        at [THEN conjunct2, THEN conjunct1, rule_format, OF j]
        at [THEN conjunct2, THEN conjunct2])+
qed

text \<open>
  Claim C4. Normalisation round trip in exact arithmetic: for a series whose minimum and
  maximum differ and a value \<open>v\<close> of the series, the scaler fitted on the series (which has
  captured that minimum and maximum) transforms \<open>v\<close> to a number that its inverse transform
  maps back to \<open>v\<close>; the inverse transform of the whole scaled series is the series.
\<close>

theorem normalisation_round_trip:
  assumes "Min (set series) \<noteq> Max (set series)" and "v \<in> set series"
  shows "\<exists>sc scaled t. fit_transform series = Inr (sc, scaled) \<and>
           sc_data_min sc = Min (set series) \<and> sc_data_max sc = Max (set series) \<and>
           transform sc [v] = Inr [t] \<and> inverse_transform sc [t] = Inr [v] \<and>
           inverse_transform sc scaled = Inr series"
proof -
  from assms(2) have ne: "series \<noteq> []" by auto
  let ?sc = "fitted series"
  let ?t = "v * sc_scale ?sc + sc_min ?sc"
  have "fit_transform series = Inr (?sc, map (\<lambda>x. x * sc_scale ?sc + sc_min ?sc) series)"
    using ne by (rule fit_transform_nonempty)
  moreover have "sc_data_min ?sc = Min (set series)" "sc_data_max ?sc = Max (set series)"
    by (simp_all add: fitted_def)
  moreover have "transform ?sc [v] = Inr [?t]"
    by (simp add: transform_def)
  moreover have "inverse_transform ?sc [?t] = Inr [v]"
    using fitted_scale_nonzero [of series] by (simp add: inverse_transform_def)
  moreover have "inverse_transform ?sc (map (\<lambda>x. x * sc_scale ?sc + sc_min ?sc) series) = Inr series"
    using ne by (rule inverse_transform_scaled)
  ultimately show ?thesis by blast
qed

theorem normalisation_round_trip_witness:
  "Min (set [322, 315, 308, 301, 294, 287, 280, 276 :: real]) \<noteq> Max (set [322, 315, 308, 301, 294, 287, 280, 276])
   \<and> (301::real) \<in> set [322, 315, 308, 301, 294, 287, 280, 276]
   \<and> (\<exists>sc scaled t. fit_transform [322, 315, 308, 301, 294, 287, 280, 276] = Inr (sc, scaled) \<and>
           sc_data_min sc = Min (set [322, 315, 308, 301, 294, 287, 280, 276]) \<and>
           sc_data_max sc = Max (set [322, 315, 308, 301, 294, 287, 280, 276]) \<and>
           transform sc [301] = Inr [t] \<and> inverse_transform sc [t] = Inr [301] \<and>
           inverse_transform sc scaled = Inr [322, 315, 308, 301, 294, 287, 280, 276])"
  using normalisation_round_trip [of "[322, 315, 308, 301, 294, 287, 280, 276]" 301]
  by simp

text \<open>
  Claim C5, as the code has it. The claim says that a constant series makes normalisation
  raise a DegenerateRangeError. The script has no such error and no check of the range:
  the scaler replaces the zero range by 1, so a non-empty constant series is normalised to
  zeros without any error, and the inverse transform maps the zeros back to the constant.
\<close>

theorem constant_series_normalises_to_zeros:
  assumes "series \<noteq> []" and "\<forall>x\<in>set series. x = c"
  shows "fit_transform series =
           Inr (\<lparr>sc_data_min = c, sc_data_max = c, sc_data_range = 0, sc_scale = 1, sc_min = - c\<rparr>,
                replicate (length series) 0)
         \<and> inverse_transform
             \<lparr>sc_data_min = c, sc_data_max = c, sc_data_range = 0, sc_scale = 1, sc_min = - c\<rparr>
             (replicate (length series) 0) = Inr series"
proof -
  have mm: "Min (set series) = c" "Max (set series) = c"
    using assms by (rule constant_min_max)+
  have sc: "fitted series =
      \<lparr>sc_data_min = c, sc_data_max = c, sc_data_range = 0, sc_scale = 1, sc_min = - c\<rparr>"
    by (simp add: fitted_def mm handle_zeros_in_scale_0)
  have "map (\<lambda>x. x * sc_scale (fitted series) + sc_min (fitted series)) series =
          replicate (length series) 0"
    using assms(2) by (simp add: sc map_replicate_const [symmetric] cong: map_cong)
  with fit_transform_nonempty [OF assms(1)] inverse_transform_scaled [OF assms(1)]
  show ?thesis by (simp add: sc)
qed

theorem constant_series_witness:
  "[5, 5, 5 :: real] \<noteq> [] \<and> (\<exists>x. x \<in> set [5, 5, 5 :: real] \<and> x = 5) \<and>
   fit_transform [5, 5, 5] =
     Inr (\<lparr>sc_data_min = 5, sc_data_max = 5, sc_data_range = 0, sc_scale = 1, sc_min = - 5\<rparr>,
          [0, 0, 0])
   \<and> inverse_transform
       \<lparr>sc_data_min = 5, sc_data_max = 5, sc_data_range = 0, sc_scale = 1, sc_min = - 5\<rparr>
       [0, 0, 0] = Inr [5, 5, 5]"
  using constant_series_normalises_to_zeros [of "[5, 5, 5]" 5]
  by (simp add: numeral_3_eq_3)

text \<open>The claim as stated fails on the series \<open>[5, 5, 5]\<close>: normalisation returns.\<close>

theorem constant_series_is_not_rejected:
  "fit_transform [5, 5, 5] =
     Inr (\<lparr>sc_data_min = 5, sc_data_max = 5, sc_data_range = 0, sc_scale = 1, sc_min = - 5\<rparr>,
          [0, 0, 0])"
  by (simp add: fit_transform_def fit_def transform_def handle_zeros_in_scale_def float_eps_def)

text \<open>
  Claim C6, as the code has it. The claim says that a series of length \<open>N \<le> W\<close> makes the
  windowing step raise an InsufficientDataError. The script has no such error: its loop runs
  over an empty range and returns no window and no label, without raising.
\<close>

theorem make_windows_short_series:
  assumes "length s \<le> W"
  shows "make_windows s W = Inr ([], [])"
  using assms by (simp add: make_windows_def py_range_def)

theorem make_windows_short_series_witness:
  "length [1, 2, 3, 4 :: real] \<le> 4 \<and> make_windows [1, 2, 3, 4] 4 = Inr ([], [])"
  using make_windows_short_series [of "[1, 2, 3, 4]" 4] by simp

text \<open>The claim as stated fails on the series \<open>[1, 2, 3]\<close> with the window width 4.\<close>

theorem make_windows_short_series_raises_nothing:
  "make_windows [1, 2, 3] 4 = Inr ([], [])"
  by (simp add: make_windows_def py_range_def)

text \<open>
  Claim C7. No guard on the predictions: whatever the number that \<open>predict\<close> returns on the
  context \<open>c\<close> reached after \<open>k\<close> steps, step \<open>k + 1\<close> appends that very number to the
  output and makes it the newest entry of the next context. Nothing is assumed of
  \<open>predict\<close>, so this holds for predictions outside \<open>[0, 1]\<close> as for any other.
\<close>

theorem forecast_feeds_back_unguarded:
  assumes "length init = W" and "0 < W"
  shows "\<exists>c outs. forecast predict W init k = Inr (c, outs) \<and> length c = W \<and>
           forecast predict W init (Suc k) = Inr (tl c @ [predict c], outs @ [predict c])"
proof -
  let ?c = "spec_context predict init k" and ?o = "spec_output predict init k"
  have "forecast predict W init k = Inr (?c, ?o)"
    using assms by (rule forecast_refines_spec)
  moreover have "length ?c = W"
    using assms by (simp add: spec_context_length)
  moreover have "forecast predict W init (Suc k) = Inr (tl ?c @ [predict ?c], ?o @ [predict ?c])"
    using assms by (simp add: forecast_refines_spec spec_output_Suc)
  ultimately show ?thesis by blast
qed

theorem forecast_feeds_back_unguarded_witness:
  "length [0, 1 / 4, 1 / 2, 1 :: real] = 4 \<and> 0 < (4::nat) \<and>
   forecast (\<lambda>c. 2 * last c + 1) 4 [0, 1 / 4, 1 / 2, 1] 1 = Inr ([1 / 4, 1 / 2, 1, 3], [3]) \<and>
   forecast (\<lambda>c. 2 * last c + 1) 4 [0, 1 / 4, 1 / 2, 1] 2 = Inr ([1 / 2, 1, 3, 7], [3, 7]) \<and>
   (\<exists>c outs. forecast (\<lambda>c. 2 * last c + 1) 4 [0, 1 / 4, 1 / 2, 1] 1 = Inr (c, outs) \<and>
      length c = 4 \<and>
      forecast (\<lambda>c. 2 * last c + 1) 4 [0, 1 / 4, 1 / 2, 1] (Suc 1)
        = Inr (tl c @ [2 * last c + 1], outs @ [2 * last c + 1]))"
proof -
  have len: "length [0, 1 / 4, 1 / 2, 1 :: real] = 4" and pos: "0 < (4::nat)"
    by simp_all
  have run1: "forecast (\<lambda>c. 2 * last c + 1) 4 [0, 1 / 4, 1 / 2, 1] 1
      = Inr ([1 / 4, 1 / 2, 1, 3], [3])"
    by code_simp
  have run2: "forecast (\<lambda>c. 2 * last c + 1) 4 [0, 1 / 4, 1 / 2, 1] 2
      = Inr ([1 / 2, 1, 3, 7], [3, 7])"
    by code_simp
  note step = forecast_feeds_back_unguarded [OF len pos, of "\<lambda>c. 2 * last c + 1" 1]
  show ?thesis
    by (intro conjI) (rule len pos run1 run2 step)+
qed

text \<open>
  Claim C8. Assembly of the final forecast, on a data frame long enough for a non-empty
  training and test set. The section returns; the forecast is the output of the recursive
  loop started on the last \<open>look_back\<close> scaled observations and holds \<open>future_steps\<close>
  numbers; each reported number is the inverse transform of the forecast at the same
  position, with the one minimum and maximum that the scaler took from the whole series
  when it was fitted; the plot pairs forecast \<open>k\<close> with the end of the year \<open>k + 1\<close> years
  after the last observed year, a date later than every date of the data frame. So no
  observed period is reported among the forecasts.
\<close>

theorem forecast_assembly:
  assumes "look_back + 2 \<le> length df"
  shows "\<exists>r fd. lstm_section train (map snd df) = Inr r \<and>
      future_dates (map fst df) = Inr fd \<and>
      lstm_forecast_plot train df = Inr (zip fd (future_predictions_inv r)) \<and>
      (\<exists>c. forecast (train (take (train_size r) (windows r)) (take (train_size r) (labels r)))
             look_back (py_last_n look_back (scaled_data r)) future_steps
           = Inr (c, future_predictions r)) \<and>
      length (future_predictions r) = future_steps \<and>
      length (future_predictions_inv r) = future_steps \<and>
      length fd = future_steps \<and>
      sc_data_min (scaler r) = Min (set (map snd df)) \<and>
      sc_data_max (scaler r) = Max (set (map snd df)) \<and>
      (\<forall>k<future_steps.
          future_predictions_inv r ! k =
            future_predictions r ! k
              * handle_zeros_in_scale (sc_data_max (scaler r) - sc_data_min (scaler r))
              + sc_data_min (scaler r) \<and>
          d_year (fd ! k) = Max (d_year ` fst ` set df) + 1 + int k \<and>
          (\<forall>row\<in>set df. date_less (fst row) (fd ! k)))"
proof -
  define series where "series = map snd df"
  define ds where "ds = map fst df"
  define r where "r = section_value train series"
  define fd where "fd = map (\<lambda>k. \<lparr>d_year = Max (d_year ` set ds) + 1 + int k, d_month = 12, d_day = 31\<rparr>)
                  [0..<future_steps]"
  define predict where
    "predict = train (take (train_size r) (windows r)) (take (train_size r) (labels r))"
  have long: "look_back + 2 \<le> length series"
    using assms by (simp add: series_def)
  have ne: "ds \<noteq> []"
    using assms by (auto simp: ds_def)
  have run: "lstm_section train series = Inr r"
    unfolding r_def using long by (rule lstm_section_long_series)
  have dates: "future_dates ds = Inr fd"
    unfolding fd_def using ne by (rule future_dates_nonempty)
  have fp: "future_predictions r = spec_output predict (py_last_n look_back (scaled_data r)) future_steps"
    by (simp add: r_def section_value_def Let_def predict_def)
  have len_fp: "length (future_predictions r) = future_steps"
    by (simp add: fp spec_output_length)
  have fpi: "future_predictions_inv r =
      map (\<lambda>p. (p - sc_min (fitted series)) / sc_scale (fitted series)) (future_predictions r)"
    by (simp add: r_def section_value_def Let_def)
  have len_fpi: "length (future_predictions_inv r) = future_steps"
    by (simp add: fpi len_fp)
  have len_fd: "length fd = future_steps"
    by (simp add: fd_def)
  have plot: "lstm_forecast_plot train df = Inr (zip fd (future_predictions_inv r))"
    using run dates len_fd len_fpi
    by (simp add: lstm_forecast_plot_def bind_err_def series_def [symmetric] ds_def [symmetric])
  have lb: "look_back \<le> length (scaled_data r)" "0 < look_back"
    using long by (simp_all add: r_def section_value_def Let_def look_back_def)
  have "forecast predict look_back (py_last_n look_back (scaled_data r)) future_steps =
          Inr (spec_context predict (py_last_n look_back (scaled_data r)) future_steps,
               future_predictions r)"
    unfolding fp using lb by (intro forecast_refines_spec py_last_n_length)
  then have fc: "\<exists>c. forecast predict look_back (py_last_n look_back (scaled_data r)) future_steps
      = Inr (c, future_predictions r)"
    by blast
  have sc: "scaler r = fitted series"
    by (simp add: r_def section_value_def Let_def)
  have mn: "sc_data_min (scaler r) = Min (set series)" "sc_data_max (scaler r) = Max (set series)"
    by (simp_all add: sc fitted_def)
  have each: "future_predictions_inv r ! k =
            future_predictions r ! k
              * handle_zeros_in_scale (sc_data_max (scaler r) - sc_data_min (scaler r))
              + sc_data_min (scaler r) \<and>
          d_year (fd ! k) = Max (d_year ` fst ` set df) + 1 + int k \<and>
          (\<forall>row\<in>set df. date_less (fst row) (fd ! k))"
    if k: "k < future_steps" for k
  proof -
    have a: "future_predictions_inv r ! k =
            future_predictions r ! k
              * handle_zeros_in_scale (sc_data_max (scaler r) - sc_data_min (scaler r))
              + sc_data_min (scaler r)"
      using k len_fp by (simp add: fpi mn inverse_value)
    have b: "d_year (fd ! k) = Max (d_year ` fst ` set df) + 1 + int k"
      using k by (simp add: fd_def ds_def)
    have c: "date_less (fst row) (fd ! k)" if "row \<in> set df" for row
    proof -
      have "d_year (fst row) \<in> d_year ` fst ` set df"
        using that by blast
      then have "d_year (fst row) \<le> Max (d_year ` fst ` set df)"
        by (intro Max_ge) simp_all
      then have "d_year (fst row) < d_year (fd ! k)"
        using b by simp
      then show ?thesis by (rule later_year_later_date)
    qed
    from a b c show ?thesis by blast
  qed
  show ?thesis
    using run dates plot fc len_fp len_fpi len_fd mn each
    unfolding series_def ds_def predict_def by blast
qed

theorem forecast_assembly_witness:
  "look_back + 2 \<le> length example_df \<and>
   lstm_forecast_plot mean_train example_df =
     Inr [(\<lparr>d_year = 2008, d_month = 12, d_day = 31\<rparr>, 1137 / 4),
          (\<lparr>d_year = 2009, d_month = 12, d_day = 31\<rparr>, 4509 / 16),
          (\<lparr>d_year = 2010, d_month = 12, d_day = 31\<rparr>, 17953 / 64),
          (\<lparr>d_year = 2011, d_month = 12, d_day = 31\<rparr>, 71845 / 256),
          (\<lparr>d_year = 2012, d_month = 12, d_day = 31\<rparr>, 288569 / 1024)] \<and>
   (\<exists>r fd. lstm_section mean_train (map snd example_df) = Inr r \<and>
      future_dates (map fst example_df) = Inr fd \<and>
      lstm_forecast_plot mean_train example_df = Inr (zip fd (future_predictions_inv r)) \<and>
      length (future_predictions_inv r) = future_steps \<and> length fd = future_steps \<and>
      sc_data_min (scaler r) = Min (set (map snd example_df)) \<and>
      sc_data_max (scaler r) = Max (set (map snd example_df)) \<and>
      future_predictions_inv r ! 0 =
        future_predictions r ! 0
          * handle_zeros_in_scale (sc_data_max (scaler r) - sc_data_min (scaler r))
          + sc_data_min (scaler r) \<and>
      d_year (fd ! 0) = Max (d_year ` fst ` set example_df) + 1 + int 0)"
proof -
  have long: "look_back + 2 \<le> length example_df"
    by (simp add: look_back_def example_df_def)
  have run: "lstm_forecast_plot mean_train example_df =
     Inr [(\<lparr>d_year = 2008, d_month = 12, d_day = 31\<rparr>, 1137 / 4),
          (\<lparr>d_year = 2009, d_month = 12, d_day = 31\<rparr>, 4509 / 16),
          (\<lparr>d_year = 2010, d_month = 12, d_day = 31\<rparr>, 17953 / 64),
          (\<lparr>d_year = 2011, d_month = 12, d_day = 31\<rparr>, 71845 / 256),
          (\<lparr>d_year = 2012, d_month = 12, d_day = 31\<rparr>, 288569 / 1024)]"
    by code_simp
  have zero: "(0::nat) < future_steps"
    by (simp add: future_steps_def)
  from forecast_assembly [OF long, of mean_train]
  obtain r fd where
    "lstm_section mean_train (map snd example_df) = Inr r"
    "future_dates (map fst example_df) = Inr fd"
    "lstm_forecast_plot mean_train example_df = Inr (zip fd (future_predictions_inv r))"
    "length (future_predictions_inv r) = future_steps" "length fd = future_steps"
    "sc_data_min (scaler r) = Min (set (map snd example_df))"
    "sc_data_max (scaler r) = Max (set (map snd example_df))"
    "\<forall>k<future_steps.
          future_predictions_inv r ! k =
            future_predictions r ! k
              * handle_zeros_in_scale (sc_data_max (scaler r) - sc_data_min (scaler r))
              + sc_data_min (scaler r) \<and>
          d_year (fd ! k) = Max (d_year ` fst ` set example_df) + 1 + int k \<and>
          (\<forall>row\<in>set example_df. date_less (fst row) (fd ! k))"
    by blast
  note facts = this
  note first = facts(8) [rule_format, OF zero]
  show ?thesis
    by (intro conjI exI [of _ r] exI [of _ fd])
      (rule long run facts(1-7) first [THEN conjunct1]
        first [THEN conjunct2, THEN conjunct1])+
qed

text \<open>
  Claim C9. The test-set error is a mean squared error in original units: on a series long
  enough for a non-empty training and test set the section returns, its denormalised test
  labels are the observed values of the series themselves, its denormalised test predictions
  are the predictions mapped back with the fitted minimum and range, and \<open>test_loss\<close> is the
  mean of the squared differences of the two.
\<close>

theorem test_loss_in_original_units:
  assumes "look_back + 2 \<le> length series"
  shows "\<exists>r. lstm_section train series = Inr r \<and>
     (let ts = train_size r; X_test = drop ts (windows r);
          predict = train (take ts (windows r)) (take ts (labels r));
          denorm = (\<lambda>p. p * handle_zeros_in_scale (Max (set series) - Min (set series))
                          + Min (set series))
      in X_test \<noteq> [] \<and>
         test_predictions_inv r = map (\<lambda>w. denorm (predict w)) X_test \<and>
         y_test_inv r = drop (ts + look_back) series \<and>
         length (y_test_inv r) = length X_test \<and>
         test_loss r =
           Some ((\<Sum>i<length X_test.
                    (denorm (predict (X_test ! i)) - series ! (ts + look_back + i))\<^sup>2)
                 / real (length X_test)))"
proof -
  define r where "r = section_value train series"
  define ts where "ts = train_size r"
  define X_test where "X_test = drop ts (windows r)"
  define predict where "predict = train (take ts (windows r)) (take ts (labels r))"
  define denorm where
    "denorm = (\<lambda>p. p * handle_zeros_in_scale (Max (set series) - Min (set series)) + Min (set series))"
  define sd where "sd = map (\<lambda>x. x * sc_scale (fitted series) + sc_min (fitted series)) series"
  have run: "lstm_section train series = Inr r"
    unfolding r_def using assms by (rule lstm_section_long_series)
  have lenX: "length (windows r) = length series - look_back"
    by (simp add: r_def section_value_def Let_def)
  have ts_eq: "ts = train_size_of (length (windows r))"
    by (simp add: ts_def r_def section_value_def Let_def)
  have "2 \<le> length (windows r)"
    using assms lenX by simp
  then have ts: "0 < ts" "ts < length (windows r)"
    unfolding ts_eq by (rule train_size_of_bounds)+
  have ne: "X_test \<noteq> []"
    using ts by (simp add: X_test_def)
  have tp: "test_predictions_inv r = map (\<lambda>w. denorm (predict w)) X_test"
    by (simp add: r_def section_value_def Let_def inverse_value denorm_def predict_def
        X_test_def ts_def o_def)
  have "y_test_inv r =
          map (\<lambda>p. (p - sc_min (fitted series)) / sc_scale (fitted series))
            (drop (ts + look_back) sd)"
    by (simp add: r_def section_value_def Let_def ts_def sd_def add.commute)
  also have "\<dots> = drop (ts + look_back) series"
    unfolding sd_def drop_map [symmetric] inverse_map_scaled ..
  finally have yt: "y_test_inv r = drop (ts + look_back) series" .
  have len: "length (y_test_inv r) = length X_test"
    using ts lenX by (simp add: yt X_test_def)
  have "test_loss r = np_mean (squared_errors (test_predictions_inv r) (y_test_inv r))"
    by (simp add: r_def section_value_def Let_def)
  also have "\<dots> = Some ((\<Sum>i<length (test_predictions_inv r).
        (test_predictions_inv r ! i - y_test_inv r ! i)\<^sup>2) / real (length (test_predictions_inv r)))"
    using len ne by (intro np_mean_squared_errors) (simp_all add: tp)
  also have "\<dots> = Some ((\<Sum>i<length X_test.
        (denorm (predict (X_test ! i)) - series ! (ts + look_back + i))\<^sup>2) / real (length X_test))"
    using len by (simp add: tp yt)
  finally have loss: "test_loss r = Some ((\<Sum>i<length X_test.
        (denorm (predict (X_test ! i)) - series ! (ts + look_back + i))\<^sup>2) / real (length X_test))" .
  show ?thesis
    using run ne tp yt len loss
    unfolding Let_def ts_def X_test_def predict_def denorm_def by blast
qed

theorem test_loss_in_original_units_witness:
  "look_back + 2 \<le> length example_series \<and>
   map_sum id test_loss (lstm_section mean_train example_series) = Inr (Some (841 / 4)) \<and>
   (\<exists>r. lstm_section mean_train example_series = Inr r \<and>
      drop (train_size r) (windows r) \<noteq> [] \<and>
      y_test_inv r = drop (train_size r + look_back) example_series)"
proof -
  have long: "look_back + 2 \<le> length example_series"
    by (simp add: look_back_def example_series_def)
  have run: "map_sum id test_loss (lstm_section mean_train example_series) = Inr (Some (841 / 4))"
    by code_simp
  from test_loss_in_original_units [OF long, of mean_train]
  obtain r where "lstm_section mean_train example_series = Inr r"
    "drop (train_size r) (windows r) \<noteq> []"
    "y_test_inv r = drop (train_size r + look_back) example_series"
    unfolding Let_def by blast
  note facts = this
  show ?thesis
    by (intro conjI exI [of _ r]) (rule long run facts)+
qed

text \<open>
  Claim C10, as the code has it. For every sort that returns the rows in ascending order of
  the date, a merge that succeeds writes and returns a data set in strictly ascending order
  of the date, so with one row for each date; its dates are those of the stored and the
  fetched rows together, and the row kept for a date is the first of that date in the order
  the sort returns. Under a sort that keeps rows of equal date in input order the row kept
  for a stored date is the stored one. The claim says so of every merge; the default sort
  of pandas is not stable and does not give it.
\<close>

theorem integrate_new_data_sorted_one_row_per_period:
  assumes "sorts_by_ds sort_values"
    and "integrate_new_data sort_values (Some current_df) new_data = (written, Some out)"
  shows "\<exists>new_df. new_rows new_data = Some new_df \<and> written = Some out \<and>
           sorted_wrt (\<lambda>a b. date_less (r_ds a) (r_ds b)) out \<and>
           distinct (map r_ds out) \<and>
           set out \<subseteq> set (current_df @ new_df) \<and>
           r_ds ` set out = r_ds ` set (current_df @ new_df) \<and>
           (\<forall>r\<in>set out.
              r = hd (filter (\<lambda>x. r_ds x = r_ds r) (sort_values (current_df @ new_df)))) \<and>
           (keeps_input_order sort_values \<longrightarrow>
              (\<forall>r\<in>set out. r_ds r \<in> r_ds ` set current_df \<longrightarrow>
                 r = hd (filter (\<lambda>x. r_ds x = r_ds r) current_df)))"
proof -
  from assms(2) obtain new_df where new: "new_rows new_data = Some new_df"
    and out: "out = drop_duplicates_ds (sort_values (current_df @ new_df))"
    and written: "written = Some out"
    by (auto simp: integrate_new_data_def Let_def split: option.splits)
  let ?all = "current_df @ new_df"
  have perm: "mset (sort_values ?all) = mset ?all"
    and sorted: "sorted_wrt (\<lambda>a b. \<not> date_less (r_ds b) (r_ds a)) (sort_values ?all)"
    using assms(1) by (simp_all add: sorts_by_ds_def)
  from perm have same: "set (sort_values ?all) = set ?all"
    by (rule mset_eq_setD)
  have strict: "sorted_wrt (\<lambda>a b. date_less (r_ds a) (r_ds b)) out"
    unfolding out drop_duplicates_ds_def
    using sorted by (rule drop_duplicates_from_strictly_sorted)
  have dist: "distinct (map r_ds out)"
    unfolding out drop_duplicates_ds_def by (rule drop_duplicates_from_distinct)
  have sub: "set out \<subseteq> set ?all"
    unfolding out drop_duplicates_ds_def
    using drop_duplicates_from_subset [of "[]" "sort_values ?all"] same by simp
  have keys: "r_ds ` set out = r_ds ` set ?all"
    unfolding out drop_duplicates_ds_def
    using drop_duplicates_from_keys [of "[]" "sort_values ?all"] same by simp
  have first: "r = hd (filter (\<lambda>x. r_ds x = r_ds r) (sort_values ?all))" if "r \<in> set out" for r
    using that unfolding out drop_duplicates_ds_def by (rule drop_duplicates_from_first)
  have stable: "r = hd (filter (\<lambda>x. r_ds x = r_ds r) current_df)"
    if "keeps_input_order sort_values" and "r \<in> set out" and "r_ds r \<in> r_ds ` set current_df"
    for r
  proof -
    have "filter (\<lambda>x. r_ds x = r_ds r) (sort_values ?all) = filter (\<lambda>x. r_ds x = r_ds r) ?all"
      using that(1) by (simp add: keeps_input_order_def)
    with first [OF that(2)] have "r = hd (filter (\<lambda>x. r_ds x = r_ds r) ?all)"
      by simp
    then show ?thesis
      using hd_filter_append [OF that(3)] by simp
  qed
  show ?thesis
    using new written strict dist sub keys first stable by blast
qed

theorem integrate_new_data_witness:
  "sorts_by_ds sort_values_stable \<and>
   integrate_new_data sort_values_stable (Some small_stored) small_fetched
     = (Some small_merged, Some small_merged) \<and>
   (\<exists>new_df. new_rows small_fetched = Some new_df \<and> Some small_merged = Some small_merged \<and>
      sorted_wrt (\<lambda>a b. date_less (r_ds a) (r_ds b)) small_merged \<and>
      distinct (map r_ds small_merged) \<and>
      set small_merged \<subseteq> set (small_stored @ new_df) \<and>
      r_ds ` set small_merged = r_ds ` set (small_stored @ new_df) \<and>
      (\<forall>r\<in>set small_merged.
         r = hd (filter (\<lambda>x. r_ds x = r_ds r) (sort_values_stable (small_stored @ new_df)))) \<and>
      (keeps_input_order sort_values_stable \<longrightarrow>
         (\<forall>r\<in>set small_merged. r_ds r \<in> r_ds ` set small_stored \<longrightarrow>
            r = hd (filter (\<lambda>x. r_ds x = r_ds r) small_stored))))"
proof -
  have run: "integrate_new_data sort_values_stable (Some small_stored) small_fetched
      = (Some small_merged, Some small_merged)"
    by code_simp
  show ?thesis
    by (intro conjI)
      (rule sort_values_stable_sorts run
        integrate_new_data_sorted_one_row_per_period [OF sort_values_stable_sorts run])+
qed

text \<open>
  The claim as stated fails on the stored years 2000 to 2016 and a fetched record for 2003:
  the median of three makes the fetched row the pivot, the partition puts it in front of
  the stored row of 2003, and \<^verbatim>\<open>drop_duplicates\<close> keeps it. The merged data set holds the
  fetched value 299 for 2003, not the stored 301.
\<close>

theorem integrate_new_data_keeps_fetched_row:
  "years_values (snd (integrate_new_data sort_values_quicksort (Some stored_rows)
       [\<lparr>p_year = 2003, p_incidence = 299, p_source = ''WHO Global TB Report''\<rparr>])) =
     Some [(2000, 322), (2001, 315), (2002, 308), (2003, 299), (2004, 294),
           (2005, 287), (2006, 280), (2007, 276), (2008, 273), (2009, 270),
           (2010, 267), (2011, 264), (2012, 258), (2013, 256), (2014, 252),
           (2015, 248), (2016, 244)]"
  by code_simp

end
